theory Spec2Isabelle
  imports Main "HOL-Library.Multiset"
begin

section \<open>JavaScript strings and numbers\<close>

text \<open>
  A JavaScript string is a sequence of UTF-16 code units. The model uses \<^typ>\<open>string\<close>, whose
  characters are read as the code units U+0000 to U+00FF (ASCII and Latin-1); code units above
  U+00FF are outside the model.
\<close>

text \<open>\<^verbatim>\<open>String.prototype.split\<close> with a one-character separator: the pieces between the
  separators, in order; a string without the separator is the only piece.\<close>

fun split_str :: "char \<Rightarrow> string \<Rightarrow> string list" where
  "split_str sep [] = [[]]"
| "split_str sep (c # cs) =
     (if c = sep then [] # split_str sep cs
      else (c # hd (split_str sep cs)) # tl (split_str sep cs))"

text \<open>The white space and line terminators below U+0100 that \<^verbatim>\<open>trim\<close> and
  \<^verbatim>\<open>parseInt\<close> skip: TAB, LF, VT, FF, CR, SP and NBSP.\<close>

definition isWhiteSpace :: "char \<Rightarrow> bool" where
  "isWhiteSpace c \<longleftrightarrow>
     c \<in> set [CHR 0x09, CHR 0x0A, CHR 0x0B, CHR 0x0C, CHR 0x0D, CHR 0x20, CHR 0xA0]"

definition trimStart :: "string \<Rightarrow> string" where
  "trimStart s = dropWhile isWhiteSpace s"

definition trim :: "string \<Rightarrow> string" where
  "trim s = rev (dropWhile isWhiteSpace (rev (dropWhile isWhiteSpace s)))"

definition isDigit :: "char \<Rightarrow> bool" where
  "isDigit c \<longleftrightarrow> c \<in> set ''0123456789''"

definition digitVal :: "char \<Rightarrow> nat" where
  "digitVal c =
     (case map_of (zip ''0123456789'' [0, 1, 2, 3, 4, 5, 6, 7, 8, 9]) c of
        Some d \<Rightarrow> d
      | None \<Rightarrow> 0)"

text \<open>The mathematical value of a string of decimal digits, most significant digit first.\<close>

definition digitsVal :: "string \<Rightarrow> nat" where
  "digitsVal ds = foldl (\<lambda>acc c. 10 * acc + digitVal c) 0 ds"

text \<open>
  A JavaScript Number, as far as \<^verbatim>\<open>parseInt\<close> can produce one: not-a-number, an integer
  that a double represents, or an infinity.
\<close>

datatype number = NaN | NegInfinity | Fin int | PosInfinity

fun num_less :: "number \<Rightarrow> number \<Rightarrow> bool" where
  "num_less NaN _ = False"
| "num_less _ NaN = False"
| "num_less NegInfinity NegInfinity = False"
| "num_less NegInfinity _ = True"
| "num_less (Fin a) (Fin b) = (a < b)"
| "num_less (Fin a) PosInfinity = True"
| "num_less (Fin a) NegInfinity = False"
| "num_less PosInfinity _ = False"

fun bitLength :: "nat \<Rightarrow> nat" where
  "bitLength n = (if n = 0 then 0 else Suc (bitLength (n div 2)))"

declare bitLength.simps [simp del]

text \<open>
  The double nearest to a natural number (round to nearest, ties to even, 53 bits of
  significand), \<open>None\<close> when it overflows to infinity. Below \<open>2 ^ 53\<close> every integer is a double.
\<close>

definition toDouble :: "nat \<Rightarrow> nat option" where
  "toDouble n =
     (if n < 2 ^ 53 then Some n
      else
        let e = bitLength n - 53;
            q = n div 2 ^ e;
            r = n mod 2 ^ e;
            h = 2 ^ (e - 1);
            q' = (if h < r \<or> (r = h \<and> odd q) then q + 1 else q);
            v = q' * 2 ^ e
        in if 2 ^ 1024 \<le> v then None else Some v)"

text \<open>
  \<^verbatim>\<open>Number.parseInt(s, 10)\<close>: skip leading white space, read an optional sign, then the
  longest prefix of decimal digits; no digit gives \<open>NaN\<close>.
\<close>

definition parseInt :: "string \<Rightarrow> number" where
  "parseInt s =
     (let t = trimStart s;
          neg = (t \<noteq> [] \<and> hd t = CHR ''-'');
          u = (if t \<noteq> [] \<and> (hd t = CHR ''-'' \<or> hd t = CHR ''+'') then tl t else t);
          z = takeWhile isDigit u
      in if z = [] then NaN
         else (case toDouble (digitsVal z) of
                 None \<Rightarrow> (if neg then NegInfinity else PosInfinity)
               | Some v \<Rightarrow> Fin (if neg then - int v else int v)))"

text \<open>\<^verbatim>\<open>x || 0\<close> on a Number: \<open>NaN\<close> and zero are falsy.\<close>

definition orZero :: "number \<Rightarrow> number" where
  "orZero x = (if x = NaN \<or> x = Fin 0 then Fin 0 else x)"

section \<open>Version comparison\<close>

text \<open>
  \<^verbatim>\<open>const normalize = (version) =>
     version.split('-')[0].split('.').map((part) => Number.parseInt(part, 10) || 0);\<close>
\<close>

definition normalize_version :: "string \<Rightarrow> number list" where
  "normalize_version version =
     map (\<lambda>part. orZero (parseInt part)) (split_str CHR ''.'' (hd (split_str CHR ''-'' version)))"

text \<open>\<^verbatim>\<open>parts[i] ?? 0\<close>: an index past the end reads \<^verbatim>\<open>undefined\<close>.\<close>

definition partAt :: "number list \<Rightarrow> nat \<Rightarrow> number" where
  "partAt parts i = (if i < length parts then parts ! i else Fin 0)"

text \<open>The loop of \<^verbatim>\<open>compareVersions\<close>, from index \<open>i\<close> on.\<close>

function compareFrom :: "number list \<Rightarrow> number list \<Rightarrow> nat \<Rightarrow> nat \<Rightarrow> int" where
  "compareFrom currentParts latestParts maxLen i =
     (if i < maxLen then
        (let a = partAt currentParts i; b = partAt latestParts i
         in if num_less a b then - 1
            else if num_less b a then 1
            else compareFrom currentParts latestParts maxLen (i + 1))
      else 0)"
  by pat_completeness auto
termination
  by (relation "measure (\<lambda>(c, l, m, i). m - i)") auto

declare compareFrom.simps [simp del]

definition compareVersions :: "string \<Rightarrow> string \<Rightarrow> int" where
  "compareVersions current latest =
     (let currentParts = normalize_version current;
          latestParts = normalize_version latest;
          maxLen = max (length currentParts) (length latestParts)
      in compareFrom currentParts latestParts maxLen 0)"

text \<open>The \<open>i\<close>-th component of a version string as the comparison reads it.\<close>

definition component :: "string \<Rightarrow> nat \<Rightarrow> number" where
  "component version i = partAt (normalize_version version) i"

section \<open>More string operations\<close>

text \<open>
  \<^verbatim>\<open>String.prototype.toLowerCase\<close> on the code units below U+0100: the letters A to Z, and
  the Latin-1 capitals U+00C0 to U+00DE without the multiplication sign U+00D7, move up by
  \<open>0x20\<close>; every other code unit stays.
\<close>

definition upperCaseChars :: string where
  "upperCaseChars =
     ''ABCDEFGHIJKLMNOPQRSTUVWXYZ'' @
     [CHR 0xC0, CHR 0xC1, CHR 0xC2, CHR 0xC3, CHR 0xC4, CHR 0xC5, CHR 0xC6, CHR 0xC7,
      CHR 0xC8, CHR 0xC9, CHR 0xCA, CHR 0xCB, CHR 0xCC, CHR 0xCD, CHR 0xCE, CHR 0xCF,
      CHR 0xD0, CHR 0xD1, CHR 0xD2, CHR 0xD3, CHR 0xD4, CHR 0xD5, CHR 0xD6,
      CHR 0xD8, CHR 0xD9, CHR 0xDA, CHR 0xDB, CHR 0xDC, CHR 0xDD, CHR 0xDE]"

definition lowerCaseChars :: string where
  "lowerCaseChars =
     ''abcdefghijklmnopqrstuvwxyz'' @
     [CHR 0xE0, CHR 0xE1, CHR 0xE2, CHR 0xE3, CHR 0xE4, CHR 0xE5, CHR 0xE6, CHR 0xE7,
      CHR 0xE8, CHR 0xE9, CHR 0xEA, CHR 0xEB, CHR 0xEC, CHR 0xED, CHR 0xEE, CHR 0xEF,
      CHR 0xF0, CHR 0xF1, CHR 0xF2, CHR 0xF3, CHR 0xF4, CHR 0xF5, CHR 0xF6,
      CHR 0xF8, CHR 0xF9, CHR 0xFA, CHR 0xFB, CHR 0xFC, CHR 0xFD, CHR 0xFE]"

definition toLowerChar :: "char \<Rightarrow> char" where
  "toLowerChar c =
     (case map_of (zip upperCaseChars lowerCaseChars) c of Some l \<Rightarrow> l | None \<Rightarrow> c)"

definition toLowerCase :: "string \<Rightarrow> string" where
  "toLowerCase s = map toLowerChar s"

text \<open>\<^verbatim>\<open>s.startsWith(p)\<close> and \<^verbatim>\<open>s.includes(sub)\<close>: \<open>sub\<close> occurs in \<open>s\<close> as a
  contiguous run of code units.\<close>

fun startsWith :: "string \<Rightarrow> string \<Rightarrow> bool" where
  "startsWith s [] = True"
| "startsWith [] (p # ps) = False"
| "startsWith (c # cs) (p # ps) = (c = p \<and> startsWith cs ps)"

fun includes_str :: "string \<Rightarrow> string \<Rightarrow> bool" where
  "includes_str [] sub = (sub = [])"
| "includes_str (c # cs) sub = (startsWith (c # cs) sub \<or> includes_str cs sub)"

text \<open>\<^verbatim>\<open>s.endsWith('s')\<close> for a single character.\<close>

definition endsWithChar :: "string \<Rightarrow> char \<Rightarrow> bool" where
  "endsWithChar s c \<longleftrightarrow> s \<noteq> [] \<and> last s = c"

text \<open>
  The loop that keeps the first element of every key and drops the later ones, as
  \<^verbatim>\<open>[...new Set(xs)]\<close> and the \<^verbatim>\<open>seenIds\<close> loop of the forum search do; \<open>seen\<close> holds
  the keys met so far.
\<close>

fun uniqueBy :: "('a \<Rightarrow> 'k) \<Rightarrow> 'k set \<Rightarrow> 'a list \<Rightarrow> 'a list" where
  "uniqueBy key seen [] = []"
| "uniqueBy key seen (x # xs) =
     (if key x \<in> seen then uniqueBy key seen xs
      else x # uniqueBy key (insert (key x) seen) xs)"

section \<open>Errors\<close>

text \<open>
  What a failed \<^verbatim>\<open>requestUrl\<close> throws: an object with an optional numeric \<^verbatim>\<open>status\<close> and a
  \<^verbatim>\<open>message\<close> (empty when it has none).
\<close>

record http_error =
  err_status :: "nat option"
  err_message :: string

text \<open>
  The exceptions of the program: a failed request (with what it threw), a \<^verbatim>\<open>TypeError\<close>
  from reading a property of \<^verbatim>\<open>undefined\<close>, an \<^verbatim>\<open>Error\<close> that the program constructs
  itself, with its message, and whatever a call of the host (the vault adapter, the file
  system of Node, the settings store, the plugin manager) throws, with its message.
\<close>

datatype error = RequestFailed http_error | TypeError string | Error string | HostError string

text \<open>The \<^verbatim>\<open>message\<close> of a thrown value, the empty string when it has none.\<close>

fun messageOf :: "error \<Rightarrow> string" where
  "messageOf (RequestFailed e) = err_message e"
| "messageOf (TypeError m) = m"
| "messageOf (Error m) = m"
| "messageOf (HostError m) = m"

text \<open>Truthiness of an optional string: \<^verbatim>\<open>undefined\<close> and the empty string are falsy.\<close>

definition truthy :: "string option \<Rightarrow> bool" where
  "truthy x \<longleftrightarrow> x \<noteq> None \<and> x \<noteq> Some []"

text \<open>\<^verbatim>\<open>xs.filter(Boolean)\<close> on optional strings.\<close>

fun filterBoolean :: "string option list \<Rightarrow> string list" where
  "filterBoolean [] = []"
| "filterBoolean (None # xs) = filterBoolean xs"
| "filterBoolean (Some s # xs) = (if s = [] then filterBoolean xs else s # filterBoolean xs)"

section \<open>The community archive\<close>

text \<open>
  An entry of \<^verbatim>\<open>community-plugins.json\<close> (\<^verbatim>\<open>interface OfficialCommunityPlugin\<close>): \<^verbatim>\<open>id\<close>
  and \<^verbatim>\<open>repo\<close> are strings, the other fields may be absent.
\<close>

record OfficialCommunityPlugin =
  ocp_id :: string
  ocp_repo :: string
  ocp_name :: "string option"
  ocp_author :: "string option"
  ocp_description :: "string option"

record RepoOwner =
  login :: string
  avatar_url :: string

record GithubRepo =
  full_name :: string
  gr_description :: "string option"
  stargazers_count :: int
  html_url :: string
  owner :: RepoOwner

text \<open>\<^verbatim>\<open>x.toLowerCase()\<close> on a field that may be \<^verbatim>\<open>undefined\<close>.\<close>

definition lowerOf :: "string option \<Rightarrow> error + string" where
  "lowerOf x =
     (case x of
        None \<Rightarrow> Inl (TypeError ''Cannot read properties of undefined (reading 'toLowerCase')'')
      | Some s \<Rightarrow> Inr (toLowerCase s))"

text \<open>The query forms of \<^verbatim>\<open>CommunityArchiveService.search\<close>.\<close>

definition searchLowerOf :: "string \<Rightarrow> string" where
  "searchLowerOf query = trim (toLowerCase query)"

definition isPluginSearch :: "string \<Rightarrow> bool" where
  "isPluginSearch searchLower \<longleftrightarrow> searchLower = ''plugin'' \<or> searchLower = ''plugins''"

definition searchSingularOf :: "string \<Rightarrow> string" where
  "searchSingularOf searchLower =
     (if length searchLower > 3 \<and> endsWithChar searchLower CHR ''s'' then butlast searchLower
      else searchLower)"

text \<open>The callback of \<^verbatim>\<open>plugins.filter\<close> in \<^verbatim>\<open>CommunityArchiveService.search\<close>.\<close>

definition archiveFilter :: "string \<Rightarrow> OfficialCommunityPlugin \<Rightarrow> error + bool" where
  "archiveFilter query p =
     (let searchLower = searchLowerOf query;
          searchSingular = searchSingularOf searchLower
      in if searchLower = [] then Inr True
         else if isPluginSearch searchLower then Inr True
         else
           (case lowerOf (ocp_name p) of Inl e \<Rightarrow> Inl e | Inr name \<Rightarrow>
           (case lowerOf (ocp_author p) of Inl e \<Rightarrow> Inl e | Inr author \<Rightarrow>
           (case lowerOf (ocp_description p) of Inl e \<Rightarrow> Inl e | Inr description \<Rightarrow>
              let id' = toLowerCase (ocp_id p)
              in Inr (includes_str name searchLower \<or> includes_str name searchSingular \<or>
                      includes_str author searchLower \<or>
                      includes_str description searchLower \<or> includes_str description searchSingular \<or>
                      includes_str id' searchLower)))))"

text \<open>\<^verbatim>\<open>Array.prototype.filter\<close> with a callback that may throw: the first throw ends it.\<close>

fun filterE :: "('a \<Rightarrow> error + bool) \<Rightarrow> 'a list \<Rightarrow> error + 'a list" where
  "filterE f [] = Inr []"
| "filterE f (x # xs) =
     (case f x of
        Inl e \<Rightarrow> Inl e
      | Inr keep \<Rightarrow>
          (case filterE f xs of
             Inl e \<Rightarrow> Inl e
           | Inr ys \<Rightarrow> Inr (if keep then x # ys else ys)))"

text \<open>The callback of \<^verbatim>\<open>.map\<close> in \<^verbatim>\<open>CommunityArchiveService.search\<close>.\<close>

definition archiveRepo :: "OfficialCommunityPlugin \<Rightarrow> GithubRepo" where
  "archiveRepo p =
     \<lparr> full_name = ocp_repo p,
       gr_description = ocp_description p,
       stargazers_count = 0,
       html_url = ''https://github.com/'' @ ocp_repo p,
       owner = \<lparr> login = hd (split_str CHR ''/'' (ocp_repo p)), avatar_url = [] \<rparr> \<rparr>"

text \<open>
  \<^verbatim>\<open>CommunityArchiveService.search\<close>; \<open>fetched\<close> is what the request for the archive gave,
  the list or the failure, which the function does not catch.
\<close>

definition CommunityArchiveService_search ::
  "(http_error + OfficialCommunityPlugin list) \<Rightarrow> string \<Rightarrow> error + GithubRepo list" where
  "CommunityArchiveService_search fetched query =
     (case fetched of
        Inl e \<Rightarrow> Inl (RequestFailed e)
      | Inr plugins \<Rightarrow>
          (case filterE (archiveFilter query) plugins of
             Inl e \<Rightarrow> Inl e
           | Inr kept \<Rightarrow> Inr (map archiveRepo kept)))"

text \<open>
  The matcher as the specification words it: the query in either form, the original or the
  singular, against each of name, author, description and id.
\<close>

definition spec_archiveMatches :: "string \<Rightarrow> string \<Rightarrow> string \<Rightarrow> string \<Rightarrow> string \<Rightarrow> bool" where
  "spec_archiveMatches query name author description ident \<longleftrightarrow>
     (let searchLower = searchLowerOf query;
          forms = [searchLower, searchSingularOf searchLower];
          fields = map toLowerCase [name, author, description, ident]
      in searchLower = [] \<or> isPluginSearch searchLower \<or>
         (\<exists>field \<in> set fields. \<exists>form \<in> set forms. includes_str field form))"

section \<open>The forum search\<close>

text \<open>
  An element of \<^verbatim>\<open>allItems\<close> in \<^verbatim>\<open>ForumService.search\<close>: a topic of the response, or the
  object built from a post. The fields the loop reads with a default may be absent.
\<close>

record ForumItem =
  item_title :: string
  item_slug :: string
  item_id :: int
  item_posts_count :: "int option"
  item_like_count :: "int option"
  item_views :: "int option"
  item_tags :: "string list option"

record ForumPost =
  topic_title :: string
  topic_slug :: string
  topic_id :: int
  post_like_count :: "int option"

text \<open>\<^verbatim>\<open>interface ForumResult\<close>, as the loop fills it.\<close>

record ForumResult =
  fr_title :: string
  fr_slug :: string
  fr_id :: int
  fr_posts_count :: "int option"
  fr_like_count :: "int option"
  fr_views :: "int option"
  fr_tags :: "string list"

text \<open>The body of the search response: \<^verbatim>\<open>data.topics\<close> and \<^verbatim>\<open>data.posts\<close>.\<close>

record ForumData =
  topics :: "ForumItem list option"
  posts :: "ForumPost list option"

definition forumSearchQuery :: "string \<Rightarrow> string" where
  "forumSearchQuery query =
     (let q = trim query in if q \<noteq> [] then q @ '' category:9'' else ''category:9'')"

text \<open>The URL of the request; \<open>encodeURIComponent\<close> is the function of the host.\<close>

definition forumUrl :: "(string \<Rightarrow> string) \<Rightarrow> string \<Rightarrow> string" where
  "forumUrl encodeURIComponent query =
     ''https://forum.obsidian.md/search.json?q='' @ encodeURIComponent (forumSearchQuery query)"

text \<open>The callback of \<^verbatim>\<open>posts.map\<close>.\<close>

definition postTopic :: "ForumPost \<Rightarrow> ForumItem" where
  "postTopic p =
     \<lparr> item_title = topic_title p, item_slug = topic_slug p, item_id = topic_id p,
       item_posts_count = Some 0, item_like_count = post_like_count p, item_views = Some 0,
       item_tags = Some [] \<rparr>"

text \<open>The object pushed to \<^verbatim>\<open>uniqueItems\<close>; \<^verbatim>\<open>item.tags || []\<close>.\<close>

definition forumResult :: "ForumItem \<Rightarrow> ForumResult" where
  "forumResult item =
     \<lparr> fr_title = item_title item, fr_slug = item_slug item, fr_id = item_id item,
       fr_posts_count = item_posts_count item, fr_like_count = item_like_count item,
       fr_views = item_views item,
       fr_tags = (case item_tags item of None \<Rightarrow> [] | Some ts \<Rightarrow> ts) \<rparr>"

text \<open>\<^verbatim>\<open>data.topics || []\<close> and \<^verbatim>\<open>data.posts || []\<close>.\<close>

definition topicsOf :: "ForumData \<Rightarrow> ForumItem list" where
  "topicsOf data = (case topics data of None \<Rightarrow> [] | Some ts \<Rightarrow> ts)"

definition postsOf :: "ForumData \<Rightarrow> ForumPost list" where
  "postsOf data = (case posts data of None \<Rightarrow> [] | Some ps \<Rightarrow> ps)"

text \<open>
  \<^verbatim>\<open>ForumService.search\<close>. \<open>requestUrl\<close> gives, for a URL, the failure the request throws, or
  the parsed body; the body \<open>None\<close> is one that cannot be read (reading \<^verbatim>\<open>response.json\<close>
  or a property of it throws). Everything thrown inside the \<^verbatim>\<open>try\<close> ends in
  \<^verbatim>\<open>return []\<close>.
\<close>

definition ForumService_search ::
  "(string \<Rightarrow> string) \<Rightarrow> (string \<Rightarrow> http_error + ForumData option) \<Rightarrow> string \<Rightarrow> ForumResult list"
  where
  "ForumService_search encodeURIComponent requestUrl query =
     (case requestUrl (forumUrl encodeURIComponent query) of
        Inl e \<Rightarrow> []
      | Inr None \<Rightarrow> []
      | Inr (Some data) \<Rightarrow>
          (let topics' = topicsOf data;
               posts' = postsOf data;
               postTopics = map postTopic posts';
               allItems = topics' @ postTopics
           in map forumResult (uniqueBy item_id {} allItems)))"

section \<open>The repository resolver\<close>

text \<open>
  The manifest of an installed plugin, as far as the program reads it; each field is a string
  or absent (the empty manifest \<^verbatim>\<open>{}\<close> has none).
\<close>

record PackageManifest =
  m_version :: "string option"
  m_name :: "string option"
  m_authorUrl :: "string option"

text \<open>
  The regular expression \<^verbatim>\<open>/github\.com\/(?:users\/)?([^/]+)/i\<close> tried at the start of \<open>s\<close>:
  the literal \<^verbatim>\<open>github.com/\<close> in any letter case, then \<^verbatim>\<open>users/\<close> when a character other
  than \<open>/\<close> follows it, then the longest run of characters other than \<open>/\<close>, which is the
  captured group and must not be empty.
\<close>

definition matchOwnerAt :: "string \<Rightarrow> string option" where
  "matchOwnerAt s =
     (if startsWith (toLowerCase s) ''github.com/'' then
        (let rest = drop 11 s;
             afterUsers = drop 6 rest
         in if startsWith (toLowerCase rest) ''users/'' \<and>
               takeWhile (\<lambda>c. c \<noteq> CHR ''/'') afterUsers \<noteq> []
            then Some (takeWhile (\<lambda>c. c \<noteq> CHR ''/'') afterUsers)
            else if takeWhile (\<lambda>c. c \<noteq> CHR ''/'') rest \<noteq> []
            then Some (takeWhile (\<lambda>c. c \<noteq> CHR ''/'') rest)
            else None)
      else None)"

text \<open>\<^verbatim>\<open>authorUrl.match(...)\<close>: the leftmost position at which the expression matches.\<close>

fun matchOwner :: "string \<Rightarrow> string option" where
  "matchOwner [] = None"
| "matchOwner (c # cs) =
     (case matchOwnerAt (c # cs) of Some g \<Rightarrow> Some g | None \<Rightarrow> matchOwner cs)"

definition parseGithubOwnerFromAuthorUrl :: "string option \<Rightarrow> string option" where
  "parseGithubOwnerFromAuthorUrl authorUrl =
     (case authorUrl of
        None \<Rightarrow> None
      | Some u \<Rightarrow> if u = [] then None else matchOwner u)"

definition isTokenChar :: "char \<Rightarrow> bool" where
  "isTokenChar c \<longleftrightarrow> c \<in> set ''abcdefghijklmnopqrstuvwxyz0123456789''"

text \<open>
  \<^verbatim>\<open>.replace(/[^a-z0-9]+/g, '-')\<close>: every maximal run of characters outside \<^verbatim>\<open>a-z0-9\<close>
  becomes one hyphen. \<open>inRun\<close> says that the hyphen of the current run is already written.
\<close>

fun replaceRuns :: "bool \<Rightarrow> string \<Rightarrow> string" where
  "replaceRuns inRun [] = []"
| "replaceRuns inRun (c # cs) =
     (if isTokenChar c then c # replaceRuns False cs
      else if inRun then replaceRuns True cs
      else CHR ''-'' # replaceRuns True cs)"

text \<open>Replacing \<^verbatim>\<open>/^-+|-+$/g\<close> by the empty string: the hyphens at the start and at the end
  go.\<close>

definition stripHyphens :: "string \<Rightarrow> string" where
  "stripHyphens s =
     rev (dropWhile (\<lambda>c. c = CHR ''-'') (rev (dropWhile (\<lambda>c. c = CHR ''-'') s)))"

text \<open>The chain of string methods in \<^verbatim>\<open>normalizeRepoToken\<close>.\<close>

definition tokenOf :: "string \<Rightarrow> string" where
  "tokenOf input = stripHyphens (replaceRuns False (trim (toLowerCase input)))"

definition normalizeRepoToken :: "string option \<Rightarrow> string option" where
  "normalizeRepoToken input =
     (case input of
        None \<Rightarrow> None
      | Some s \<Rightarrow> if s = [] then None else Some (tokenOf s))"

definition compactRepoToken :: "string option \<Rightarrow> string option" where
  "compactRepoToken input =
     (if \<not> truthy input then None
      else
        (case normalizeRepoToken input of
           None \<Rightarrow> None
         | Some normalized \<Rightarrow>
             if normalized = [] then None
             else Some (filter (\<lambda>c. c \<noteq> CHR ''-'') normalized)))"

text \<open>\<^verbatim>\<open>token ? `...${token}` : undefined\<close>.\<close>

definition withToken :: "string option \<Rightarrow> (string \<Rightarrow> string) \<Rightarrow> string option" where
  "withToken token f =
     (case token of None \<Rightarrow> None | Some t \<Rightarrow> if t = [] then None else Some (f t))"

text \<open>
  The list that the loop of \<^verbatim>\<open>findRepoByKnownPatterns\<close> runs over:
  \<^verbatim>\<open>[...new Set(candidates)]\<close>, for the owner found in the author URL.
\<close>

definition patternCandidates :: "string \<Rightarrow> string \<Rightarrow> string option \<Rightarrow> string list" where
  "patternCandidates owner' pluginId name =
     (let idToken = normalizeRepoToken (Some pluginId);
          nameToken = normalizeRepoToken name;
          compactIdToken = compactRepoToken (Some pluginId);
          compactNameToken = compactRepoToken name;
          candidates = filterBoolean
            [withToken idToken (\<lambda>t. owner' @ ''/obsidian-'' @ t),
             withToken idToken (\<lambda>t. owner' @ ''/'' @ t),
             withToken compactIdToken (\<lambda>t. owner' @ ''/'' @ t),
             withToken nameToken (\<lambda>t. owner' @ ''/obsidian-'' @ t),
             withToken nameToken (\<lambda>t. owner' @ ''/'' @ t),
             withToken compactNameToken (\<lambda>t. owner' @ ''/'' @ t),
             withToken idToken (\<lambda>t. owner' @ ''/obsidian-plugin-'' @ t)]
      in uniqueBy (\<lambda>c. c) {} candidates)"

text \<open>
  The candidate list as the specification words it: the seven patterns in their order, each
  token normalised, the compact variant without hyphens, duplicates removed keeping the first.
\<close>

definition spec_patternCandidates :: "string \<Rightarrow> string \<Rightarrow> string \<Rightarrow> string list" where
  "spec_patternCandidates owner' pluginId name =
     (let idToken = tokenOf pluginId;
          nameToken = tokenOf name;
          compactId = filter (\<lambda>c. c \<noteq> CHR ''-'') idToken;
          compactName = filter (\<lambda>c. c \<noteq> CHR ''-'') nameToken
      in uniqueBy (\<lambda>c. c) {}
           [owner' @ ''/obsidian-'' @ idToken,
            owner' @ ''/'' @ idToken,
            owner' @ ''/'' @ compactId,
            owner' @ ''/obsidian-'' @ nameToken,
            owner' @ ''/'' @ nameToken,
            owner' @ ''/'' @ compactName,
            owner' @ ''/obsidian-plugin-'' @ idToken])"

text \<open>
  The network, as the answers it gives to the requests of the program: a failure that the
  request throws, or the part of the response that the program reads.
\<close>

record Asset =
  asset_name :: string
  browser_download_url :: string

record Release =
  assets :: "Asset list option"

record RemoteManifest =
  rm_id :: string
  rm_version :: "string option"
  rm_json :: string

record network =
  headManifest :: "string \<Rightarrow> http_error + nat \<times> string option"
  searchRepositories :: "string \<Rightarrow> string \<Rightarrow> http_error + GithubRepo list option"
  latestRelease :: "string \<Rightarrow> http_error + Release"
  downloadManifest :: "string \<Rightarrow> http_error + RemoteManifest option"
  downloadText :: "string \<Rightarrow> http_error + string"
  officialList :: "http_error + OfficialCommunityPlugin list option"

text \<open>The requests, to record which ones a run issues and in which order.\<close>

datatype request =
    HeadManifestRequest string
  | SearchRequest string string
  | LatestReleaseRequest string
  | DownloadRequest string
  | OfficialListRequest

text \<open>
  \<^verbatim>\<open>repoMatchesPluginId\<close>: one request for the manifest at the head of the repository; the
  answer is its status and the \<^verbatim>\<open>id\<close> of its body. Whatever is thrown gives \<^verbatim>\<open>false\<close>.
\<close>

definition repoMatchesPluginId :: "network \<Rightarrow> string \<Rightarrow> string \<Rightarrow> bool" where
  "repoMatchesPluginId net fullName pluginId =
     (case headManifest net fullName of
        Inl e \<Rightarrow> False
      | Inr (status, ident) \<Rightarrow> status = 200 \<and> ident = Some pluginId)"

text \<open>
  \<^verbatim>\<open>for (const repo of repos) { if (await this.repoMatchesPluginId(repo, pluginId)) return repo; }\<close>
  with the requests it issues.
\<close>

fun firstMatching :: "network \<Rightarrow> string \<Rightarrow> string list \<Rightarrow> string option \<times> request list" where
  "firstMatching net pluginId [] = (None, [])"
| "firstMatching net pluginId (repo # repos) =
     (if repoMatchesPluginId net repo pluginId then (Some repo, [HeadManifestRequest repo])
      else (fst (firstMatching net pluginId repos),
            HeadManifestRequest repo # snd (firstMatching net pluginId repos)))"

definition findRepoByKnownPatterns ::
  "network \<Rightarrow> string \<Rightarrow> PackageManifest \<Rightarrow> string option \<times> request list" where
  "findRepoByKnownPatterns net pluginId manifest =
     (let owner' = parseGithubOwnerFromAuthorUrl (m_authorUrl manifest)
      in if \<not> truthy owner' then (None, [])
         else firstMatching net pluginId (patternCandidates (the owner') pluginId (m_name manifest)))"

text \<open>\<^verbatim>\<open>GithubService.searchPlugins\<close>: a failure with status 403 is thrown again as a new
  \<^verbatim>\<open>Error\<close>, any other failure as it is; \<^verbatim>\<open>response.json.items || []\<close>.\<close>

definition searchPlugins :: "network \<Rightarrow> string \<Rightarrow> string \<Rightarrow> error + GithubRepo list" where
  "searchPlugins net query sortBy =
     (case searchRepositories net query sortBy of
        Inl e \<Rightarrow>
          if err_status e = Some 403
          then Inl (Error ''Request failed, status 403 (Rate Limit Exceeded)'')
          else Inl (RequestFailed e)
      | Inr items \<Rightarrow> Inr (case items of None \<Rightarrow> [] | Some rs \<Rightarrow> rs))"

text \<open>The result of \<^verbatim>\<open>findRepoByManifestId\<close>: \<^verbatim>\<open>{ repo?: string; reason?: string }\<close>.\<close>

record Detection =
  det_repo :: "string option"
  det_reason :: "string option"

definition rateLimitReason :: string where
  "rateLimitReason = ''GitHub API rate limit reached during repository detection.''"

definition noMatchReason :: string where
  "noMatchReason = ''No GitHub repository with matching manifest id was found.''"

text \<open>The queries of the search tier, \<^verbatim>\<open>[...].filter(Boolean)\<close>.\<close>

definition detectionQueries :: "string option \<Rightarrow> string \<Rightarrow> string list" where
  "detectionQueries owner' pluginId =
     filterBoolean
       [if truthy owner'
        then Some (''user:'' @ the owner' @ '' obsidian '' @ pluginId @ '' in:name'')
        else None,
        Some (''obsidian '' @ pluginId @ '' in:name''),
        Some ([CHR 0x22] @ pluginId @ [CHR 0x22] @ '' obsidian plugin'')]"

text \<open>
  The loop over the queries of \<^verbatim>\<open>findRepoByManifestId\<close>, with the flag \<^verbatim>\<open>rateLimited\<close>
  as it stands before the query, and the two \<^verbatim>\<open>return\<close>s after the loop.
\<close>

fun searchLoop :: "network \<Rightarrow> string \<Rightarrow> string list \<Rightarrow> bool \<Rightarrow> Detection \<times> request list" where
  "searchLoop net pluginId [] rateLimited =
     (if rateLimited then (\<lparr> det_repo = None, det_reason = Some rateLimitReason \<rparr>, [])
      else (\<lparr> det_repo = None, det_reason = Some noMatchReason \<rparr>, []))"
| "searchLoop net pluginId (query # queries) rateLimited =
     (case searchPlugins net query ''updated'' of
        Inl e \<Rightarrow>
          (let rest = searchLoop net pluginId queries
                        (rateLimited \<or> includes_str (messageOf e) ''403'')
           in (fst rest, SearchRequest query ''updated'' # snd rest))
      | Inr repos \<Rightarrow>
          (let verified = firstMatching net pluginId (map full_name (take 12 repos))
           in case fst verified of
                Some repo \<Rightarrow>
                  (\<lparr> det_repo = Some repo, det_reason = None \<rparr>,
                   SearchRequest query ''updated'' # snd verified)
              | None \<Rightarrow>
                  (let rest = searchLoop net pluginId queries rateLimited
                   in (fst rest, SearchRequest query ''updated'' # snd verified @ snd rest))))"

definition findRepoByManifestId ::
  "network \<Rightarrow> string \<Rightarrow> PackageManifest \<Rightarrow> Detection \<times> request list" where
  "findRepoByManifestId net pluginId manifest =
     (let fromKnownPattern = findRepoByKnownPatterns net pluginId manifest
      in if truthy (fst fromKnownPattern)
         then (\<lparr> det_repo = fst fromKnownPattern, det_reason = None \<rparr>, snd fromKnownPattern)
         else
           (let owner' = parseGithubOwnerFromAuthorUrl (m_authorUrl manifest);
                queries = detectionQueries owner' pluginId;
                searched = searchLoop net pluginId queries False
            in (fst searched, snd fromKnownPattern @ snd searched)))"


definition queryVerified :: "network \<Rightarrow> string \<Rightarrow> string \<Rightarrow> string option" where
  "queryVerified net pluginId query =
     (case searchPlugins net query ''updated'' of
        Inl e \<Rightarrow> None
      | Inr repos \<Rightarrow> fst (firstMatching net pluginId (map full_name (take 12 repos))))"


fun isHeadManifestRequest :: "request \<Rightarrow> bool" where
  "isHeadManifestRequest (HeadManifestRequest r) = True"
| "isHeadManifestRequest _ = False"

section \<open>Settings, host and effects\<close>

datatype InstallLocation = LocActive | LocAll | LocSelected

text \<open>\<^verbatim>\<open>interface PluginSettings\<close>, without the plugin sets and the token, which the
  functions modelled here do not read.\<close>

record PluginSettings =
  extraVaultPaths :: "string list"
  parentVaultDirectories :: "string list"
  installLocation :: InstallLocation
  installedRepoMap :: "string \<rightharpoonup> string"

text \<open>The literal \<^verbatim>\<open>DEFAULT_SETTINGS\<close>, as the module starts with it.\<close>

definition DEFAULT_SETTINGS :: PluginSettings where
  "DEFAULT_SETTINGS =
     \<lparr> extraVaultPaths = [], parentVaultDirectories = [], installLocation = LocAll,
       installedRepoMap = Map.empty \<rparr>"

text \<open>
  \<^verbatim>\<open>installedRepoMap\<close> is a plain object (\<^verbatim>\<open>{}\<close>, or what \<^verbatim>\<open>JSON.parse\<close> built): the map
  above holds its own properties, and its prototype is \<^verbatim>\<open>Object.prototype\<close>. A read
  \<^verbatim>\<open>installedRepoMap[key]\<close> of a key that is no own property finds the member of the
  prototype with that name, if there is one: a function, or for \<^verbatim>\<open>__proto__\<close> the prototype
  itself.
\<close>

definition objectPrototypeFunctions :: "string list" where
  "objectPrototypeFunctions =
     [''constructor'', ''__defineGetter__'', ''__defineSetter__'', ''hasOwnProperty'',
      ''__lookupGetter__'', ''__lookupSetter__'', ''isPrototypeOf'', ''propertyIsEnumerable'',
      ''toString'', ''valueOf'', ''toLocaleString'']"

text \<open>
  What such a read gives, other than \<^verbatim>\<open>undefined\<close>: a string, the function of the prototype
  with the given name, or the prototype.
\<close>

datatype property_value = StringValue string | FunctionValue string | PrototypeObject

definition getProperty :: "(string \<rightharpoonup> string) \<Rightarrow> string \<Rightarrow> property_value option" where
  "getProperty obj key =
     (case obj key of
        Some s \<Rightarrow> Some (StringValue s)
      | None \<Rightarrow>
          if key \<in> set objectPrototypeFunctions then Some (FunctionValue key)
          else if key = ''__proto__'' then Some PrototypeObject
          else None)"

text \<open>Whether a value is truthy: every function and object is, a string unless it is empty.\<close>

fun truthyValue :: "property_value option \<Rightarrow> bool" where
  "truthyValue None = False"
| "truthyValue (Some (StringValue s)) = (s \<noteq> [])"
| "truthyValue (Some (FunctionValue name)) = True"
| "truthyValue (Some PrototypeObject) = True"

text \<open>
  The string that a template literal makes of a value, \<^verbatim>\<open>`${value}`\<close>, with the source text
  of a native function as V8 gives it.
\<close>

fun templateString :: "property_value \<Rightarrow> string" where
  "templateString (StringValue s) = s"
| "templateString (FunctionValue name) =
     ''function '' @ (if name = ''constructor'' then ''Object'' else name) @ ''() { [native code] }''"
| "templateString PrototypeObject = ''[object Object]''"

text \<open>
  The assignment \<^verbatim>\<open>installedRepoMap[key] = value\<close> of a string. For the key \<^verbatim>\<open>__proto__\<close>
  that is no own property it calls the setter of the prototype, which ignores a string.
\<close>

definition setProperty :: "(string \<rightharpoonup> string) \<Rightarrow> string \<Rightarrow> string \<Rightarrow> (string \<rightharpoonup> string)" where
  "setProperty obj key v = (if key = ''__proto__'' \<and> obj key = None then obj else obj(key \<mapsto> v))"

text \<open>
  The modules \<^verbatim>\<open>fs\<close> and \<^verbatim>\<open>path\<close> of Node, over a file system of an arbitrary type
  \<open>'fs\<close>. A call that throws gives \<open>Inl\<close> with the message.
\<close>

record 'fs node_fs =
  existsSync :: "'fs \<Rightarrow> string \<Rightarrow> bool"
  readdirSync :: "'fs \<Rightarrow> string \<Rightarrow> string + string list"
  statIsDirectory :: "'fs \<Rightarrow> string \<Rightarrow> string + bool"
  mkdirSync :: "'fs \<Rightarrow> string \<Rightarrow> string + 'fs"
  writeFileSync :: "'fs \<Rightarrow> string \<Rightarrow> string \<Rightarrow> string + 'fs"
  path_join :: "string list \<Rightarrow> string"

text \<open>
  The host application: the vault adapter of the active vault, the settings store, the plugin
  manager, the collation of \<^verbatim>\<open>localeCompare\<close>, and Node where \<^verbatim>\<open>require\<close> finds it
  (\<open>None\<close> where \<^verbatim>\<open>require('fs')\<close> throws).
\<close>

record 'fs host =
  configDir :: string
  adapter_exists :: "'fs \<Rightarrow> string \<Rightarrow> string + bool"
  adapter_mkdir :: "'fs \<Rightarrow> string \<Rightarrow> string + 'fs"
  adapter_write :: "'fs \<Rightarrow> string \<Rightarrow> string \<Rightarrow> string + 'fs"
  saveData :: "PluginSettings \<Rightarrow> string option"
  loadManifests :: "'fs \<Rightarrow> string option"
  manifests :: "'fs \<Rightarrow> (string \<times> PackageManifest) list"
  readManifestFromDisk :: "'fs \<Rightarrow> string \<Rightarrow> PackageManifest option"
  localeCompare :: "string \<Rightarrow> string \<Rightarrow> int"
  node :: "'fs node_fs option"

text \<open>What a run does to the outside, in order.\<close>

datatype event =
    Req request
  | VaultMkdir string
  | VaultWrite string
  | FsMkdir string
  | FsWrite string
  | SaveSettings
  | ConsoleError string
  | Notice string

text \<open>
  The state a run works on: \<^verbatim>\<open>this.settings\<close>, the settings that \<^verbatim>\<open>saveData\<close> stored last,
  the file system, and the events so far. \<^verbatim>\<open>DEFAULT_SETTINGS.installedRepoMap\<close> is an object
  that the program can write to, because \<^verbatim>\<open>loadSettings\<close> copies the defaults shallowly:
  \<open>detachedDefaults\<close> is \<open>None\<close> when \<^verbatim>\<open>this.settings.installedRepoMap\<close> is that very object,
  and holds the own properties of that object when it is another one.
\<close>

record 'fs world =
  settings :: PluginSettings
  saved :: "PluginSettings option"
  detachedDefaults :: "(string \<rightharpoonup> string) option"
  files :: 'fs
  events :: "event list"

text \<open>
  An asynchronous function of the program: from the state before to what it returns or throws
  and the state after. \<open>bind\<close> is \<^verbatim>\<open>await\<close> followed by the rest of the body: a throw ends
  the body.
\<close>

type_synonym ('a, 'fs) io = "'fs world \<Rightarrow> (error + 'a) \<times> 'fs world"

definition ret :: "'a \<Rightarrow> ('a, 'fs) io" where
  "ret x = (\<lambda>w. (Inr x, w))"

definition throw :: "error \<Rightarrow> ('a, 'fs) io" where
  "throw e = (\<lambda>w. (Inl e, w))"

definition bind :: "('a, 'fs) io \<Rightarrow> ('a \<Rightarrow> ('b, 'fs) io) \<Rightarrow> ('b, 'fs) io" where
  "bind m f = (\<lambda>w. case m w of (Inl e, w') \<Rightarrow> (Inl e, w') | (Inr x, w') \<Rightarrow> f x w')"

text \<open>\<^verbatim>\<open>try { m } catch (e) { h(e) }\<close>.\<close>

definition tryCatch :: "('a, 'fs) io \<Rightarrow> (error \<Rightarrow> ('a, 'fs) io) \<Rightarrow> ('a, 'fs) io" where
  "tryCatch m h = (\<lambda>w. case m w of (Inl e, w') \<Rightarrow> h e w' | (Inr x, w') \<Rightarrow> (Inr x, w'))"

definition emit :: "event \<Rightarrow> (unit, 'fs) io" where
  "emit ev = (\<lambda>w. (Inr (), w\<lparr> events := events w @ [ev] \<rparr>))"

text \<open>\<^verbatim>\<open>for (const x of xs) { body(x) }\<close>.\<close>

fun forEach :: "'a list \<Rightarrow> ('a \<Rightarrow> (unit, 'fs) io) \<Rightarrow> (unit, 'fs) io" where
  "forEach [] body = ret ()"
| "forEach (x # xs) body = bind (body x) (\<lambda>_. forEach xs body)"

text \<open>A loop that carries a value from one round to the next.\<close>

fun foldIO :: "'a list \<Rightarrow> 'b \<Rightarrow> ('b \<Rightarrow> 'a \<Rightarrow> ('b, 'fs) io) \<Rightarrow> ('b, 'fs) io" where
  "foldIO [] acc body = ret acc"
| "foldIO (x # xs) acc body = bind (body acc x) (\<lambda>acc'. foldIO xs acc' body)"

text \<open>A request: the event, and the answer of the network or the throw.\<close>

definition request :: "request \<Rightarrow> (http_error + 'a) \<Rightarrow> ('a, 'fs) io" where
  "request r answer =
     bind (emit (Req r))
       (\<lambda>_. case answer of Inl e \<Rightarrow> throw (RequestFailed e) | Inr x \<Rightarrow> ret x)"

text \<open>The calls of the host that change the file system, with their events.\<close>

definition hostCall :: "event \<Rightarrow> ('fs \<Rightarrow> string + 'fs) \<Rightarrow> (unit, 'fs) io" where
  "hostCall ev f =
     bind (emit ev)
       (\<lambda>_ w. case f (files w) of
                 Inl m \<Rightarrow> (Inl (HostError m), w)
               | Inr fs' \<Rightarrow> (Inr (), w\<lparr> files := fs' \<rparr>))"

text \<open>The calls of the host that only read.\<close>

definition hostRead :: "('fs \<Rightarrow> string + 'a) \<Rightarrow> ('a, 'fs) io" where
  "hostRead f =
     (\<lambda>w. case f (files w) of Inl m \<Rightarrow> (Inl (HostError m), w) | Inr x \<Rightarrow> (Inr x, w))"

text \<open>\<^verbatim>\<open>saveSettings\<close>: \<^verbatim>\<open>await this.saveData(this.settings)\<close>.\<close>

definition saveSettings :: "'fs host \<Rightarrow> (unit, 'fs) io" where
  "saveSettings h =
     bind (emit SaveSettings)
       (\<lambda>_ w. case saveData h (settings w) of
                 Some m \<Rightarrow> (Inl (HostError m), w)
               | None \<Rightarrow> (Inr (), w\<lparr> saved := Some (settings w) \<rparr>))"

text \<open>
  \<^verbatim>\<open>loadSettings\<close>: \<^verbatim>\<open>this.settings = Object.assign({}, DEFAULT_SETTINGS, await this.loadData())\<close>.
  The copy is shallow. When nothing is stored, \<^verbatim>\<open>loadData\<close> gives \<^verbatim>\<open>null\<close> and the new settings
  have the defaults, with the object \<^verbatim>\<open>DEFAULT_SETTINGS.installedRepoMap\<close> itself and so with
  every entry written to it before. When settings are stored, they are the ones that
  \<^verbatim>\<open>saveData\<close> was given, which have every field, and their \<^verbatim>\<open>installedRepoMap\<close> is a new
  object.
\<close>

definition defaultsRepoMap :: "'fs world \<Rightarrow> (string \<rightharpoonup> string)" where
  "defaultsRepoMap w =
     (case detachedDefaults w of None \<Rightarrow> installedRepoMap (settings w) | Some m \<Rightarrow> m)"

definition loadSettings :: "'fs world \<Rightarrow> 'fs world" where
  "loadSettings w =
     (case saved w of
        None \<Rightarrow>
          w\<lparr> settings := DEFAULT_SETTINGS \<lparr> installedRepoMap := defaultsRepoMap w \<rparr>,
             detachedDefaults := None \<rparr>
      | Some s \<Rightarrow> w\<lparr> settings := s, detachedDefaults := Some (defaultsRepoMap w) \<rparr>)"

section \<open>The installer\<close>

definition missingAssetsMessage :: string where
  "missingAssetsMessage =
     ''Plugin does not have required release assets (main.js and manifest.json).''"

text \<open>\<^verbatim>\<open>assets.find((a) => a.name === name)\<close>.\<close>

definition findAsset :: "string \<Rightarrow> Asset list \<Rightarrow> Asset option" where
  "findAsset name as = find (\<lambda>a. asset_name a = name) as"

text \<open>
  The first lines of \<^verbatim>\<open>installPluginFromGithub\<close>, up to the check of the required assets:
  the latest release, its assets (\<^verbatim>\<open>assets.find\<close> on a release without assets is a
  \<^verbatim>\<open>TypeError\<close>), and \<^verbatim>\<open>if (!mainJs || !manifestJson) throw new Error(...)\<close>. The result is
  the three assets found.
\<close>

definition requiredAssets ::
  "network \<Rightarrow> string \<Rightarrow> (Asset \<times> Asset \<times> Asset option, 'fs) io" where
  "requiredAssets net fullName =
     bind (request (LatestReleaseRequest fullName) (latestRelease net fullName))
       (\<lambda>release.
          case assets release of
            None \<Rightarrow> throw (TypeError ''Cannot read properties of undefined (reading 'find')'')
          | Some as \<Rightarrow>
              (let mainJs = findAsset ''main.js'' as;
                   manifestJson = findAsset ''manifest.json'' as;
                   stylesCss = findAsset ''styles.css'' as
               in if mainJs = None \<or> manifestJson = None
                  then throw (Error missingAssetsMessage)
                  else ret (the mainJs, the manifestJson, stylesCss)))"

text \<open>
  The download of the manifest, and the update of \<^verbatim>\<open>installedRepoMap\<close> with its save. A
  manifest body that is \<^verbatim>\<open>null\<close> makes \<^verbatim>\<open>manifest.id\<close> a \<^verbatim>\<open>TypeError\<close>.
\<close>

definition fetchManifest :: "network \<Rightarrow> Asset \<Rightarrow> (RemoteManifest, 'fs) io" where
  "fetchManifest net manifestJson =
     bind (request (DownloadRequest (browser_download_url manifestJson))
             (downloadManifest net (browser_download_url manifestJson)))
       (\<lambda>body.
          case body of
            None \<Rightarrow> throw (TypeError ''Cannot read properties of null (reading 'id')'')
          | Some manifest \<Rightarrow> ret manifest)"

definition trackRepo :: "'fs host \<Rightarrow> string \<Rightarrow> string \<Rightarrow> (unit, 'fs) io" where
  "trackRepo h pluginId fullName =
     (\<lambda>w. if pluginId \<noteq> [] \<and>
              getProperty (installedRepoMap (settings w)) pluginId \<noteq> Some (StringValue fullName)
           then saveSettings h
                  (w\<lparr> settings := (settings w)
                        \<lparr> installedRepoMap :=
                            setProperty (installedRepoMap (settings w)) pluginId fullName \<rparr> \<rparr>)
           else (Inr (), w))"

text \<open>The writes to the active vault, \<^verbatim>\<open>if (installToActive) { ... }\<close>.\<close>

definition writeToActiveVault ::
  "'fs host \<Rightarrow> string \<Rightarrow> string \<Rightarrow> string \<Rightarrow> string option \<Rightarrow> (unit, 'fs) io" where
  "writeToActiveVault h pluginDir mainJsText manifestContent stylesContent =
     bind (hostRead (\<lambda>fs. adapter_exists h fs pluginDir))
       (\<lambda>present.
     bind (if present then ret ()
           else hostCall (VaultMkdir pluginDir) (\<lambda>fs. adapter_mkdir h fs pluginDir))
       (\<lambda>_.
     bind (hostCall (VaultWrite (pluginDir @ ''/main.js''))
             (\<lambda>fs. adapter_write h fs (pluginDir @ ''/main.js'') mainJsText))
       (\<lambda>_.
     bind (hostCall (VaultWrite (pluginDir @ ''/manifest.json''))
             (\<lambda>fs. adapter_write h fs (pluginDir @ ''/manifest.json'') manifestContent))
       (\<lambda>_.
          case stylesContent of
            None \<Rightarrow> ret ()
          | Some css \<Rightarrow>
              hostCall (VaultWrite (pluginDir @ ''/styles.css''))
                (\<lambda>fs. adapter_write h fs (pluginDir @ ''/styles.css'') css)))))"

text \<open>
  The discovery of the vaults under the parent directories: the body of
  \<^verbatim>\<open>for (const sub of subfolders)\<close> and of \<^verbatim>\<open>for (const parentPath of ...)\<close>, with
  \<^verbatim>\<open>targetVaults\<close> carried along.
\<close>

definition discoverSub ::
  "'fs node_fs \<Rightarrow> string \<Rightarrow> string list \<Rightarrow> string \<Rightarrow> (string list, 'fs) io" where
  "discoverSub nfs parentPath targetVaults sub =
     (let fullPath = path_join nfs [parentPath, sub];
          obsidianFolder = path_join nfs [fullPath, ''.obsidian'']
      in bind (hostRead (\<lambda>fs. statIsDirectory nfs fs fullPath))
           (\<lambda>isDir w.
              if isDir \<and> existsSync nfs (files w) obsidianFolder
              then if fullPath \<in> set targetVaults then (Inr targetVaults, w)
                   else (Inr (targetVaults @ [fullPath]), w)
              else (Inr targetVaults, w)))"

definition discoverParent ::
  "'fs node_fs \<Rightarrow> string list \<Rightarrow> string \<Rightarrow> (string list, 'fs) io" where
  "discoverParent nfs targetVaults parentPath =
     (\<lambda>w. if existsSync nfs (files w) parentPath
           then bind (hostRead (\<lambda>fs. readdirSync nfs fs parentPath))
                  (\<lambda>subfolders. foldIO subfolders targetVaults (discoverSub nfs parentPath)) w
           else (Inr targetVaults, w))"

text \<open>The body of \<^verbatim>\<open>for (const vaultPath of targetVaults)\<close>.\<close>

definition writeToVault ::
  "'fs node_fs \<Rightarrow> string \<Rightarrow> string \<Rightarrow> string \<Rightarrow> string option \<Rightarrow> string \<Rightarrow> (unit, 'fs) io" where
  "writeToVault nfs pluginId mainJsText manifestContent stylesContent vaultPath =
     (let targetDir = path_join nfs [vaultPath, ''.obsidian'', ''plugins'', pluginId]
      in bind (\<lambda>w. if existsSync nfs (files w) targetDir then (Inr (), w)
                    else hostCall (FsMkdir targetDir) (\<lambda>fs. mkdirSync nfs fs targetDir) w)
           (\<lambda>_.
         bind (hostCall (FsWrite (path_join nfs [targetDir, ''main.js'']))
                 (\<lambda>fs. writeFileSync nfs fs (path_join nfs [targetDir, ''main.js'']) mainJsText))
           (\<lambda>_.
         bind (hostCall (FsWrite (path_join nfs [targetDir, ''manifest.json'']))
                 (\<lambda>fs. writeFileSync nfs fs (path_join nfs [targetDir, ''manifest.json''])
                          manifestContent))
           (\<lambda>_.
              case stylesContent of
                None \<Rightarrow> ret ()
              | Some css \<Rightarrow>
                  hostCall (FsWrite (path_join nfs [targetDir, ''styles.css'']))
                    (\<lambda>fs. writeFileSync nfs fs (path_join nfs [targetDir, ''styles.css'']) css)))))"

text \<open>
  The list \<^verbatim>\<open>targetVaults\<close>: the selected vaults when they are used, then the vaults
  discovered under the parent directories when those are used.
\<close>

definition collectTargetVaults :: "'fs node_fs \<Rightarrow> (string list, 'fs) io" where
  "collectTargetVaults nfs =
     (\<lambda>w. (let useParentDirs = (installLocation (settings w) = LocAll);
                useSelectedVaults = (installLocation (settings w) = LocAll \<or>
                                     installLocation (settings w) = LocSelected);
                selected = (if useSelectedVaults then extraVaultPaths (settings w) else [])
            in if useParentDirs
               then foldIO (parentVaultDirectories (settings w)) selected (discoverParent nfs) w
               else (Inr selected, w)))"

text \<open>
  The body of the \<^verbatim>\<open>try\<close> of the multi-vault deployment: \<^verbatim>\<open>require\<close>, the list of
  targets, the loop of the writes, and the count, which is assigned after the loop.
\<close>

definition copyToExtraVaultsBody ::
  "'fs host \<Rightarrow> string \<Rightarrow> string \<Rightarrow> string \<Rightarrow> string option \<Rightarrow> (nat, 'fs) io" where
  "copyToExtraVaultsBody h pluginId mainJsText manifestContent stylesContent =
     (case node h of
        None \<Rightarrow> throw (HostError ''Cannot find module fs'')
      | Some nfs \<Rightarrow>
          bind (collectTargetVaults nfs)
            (\<lambda>targetVaults.
          bind (forEach targetVaults
                  (writeToVault nfs pluginId mainJsText manifestContent stylesContent))
            (\<lambda>_. ret (length targetVaults))))"

text \<open>
  \<^verbatim>\<open>let targetVaultsCount = 0; if (useParentDirs || useSelectedVaults) { try { ... } catch (e)
  { console.error(...) } }\<close>: the count stays \<open>0\<close> when the body throws.
\<close>

definition copyToExtraVaults ::
  "'fs host \<Rightarrow> string \<Rightarrow> string \<Rightarrow> string \<Rightarrow> string option \<Rightarrow> (nat, 'fs) io" where
  "copyToExtraVaults h pluginId mainJsText manifestContent stylesContent =
     (\<lambda>w. if installLocation (settings w) = LocAll \<or> installLocation (settings w) = LocSelected
           then tryCatch
                  (copyToExtraVaultsBody h pluginId mainJsText manifestContent stylesContent)
                  (\<lambda>e. bind (emit (ConsoleError ''Failed to copy to extra vaults:''))
                          (\<lambda>_. ret 0)) w
           else (Inr 0, w))"

text \<open>The text of the notice at the end.\<close>

definition installedNotice :: "string \<Rightarrow> bool \<Rightarrow> string \<Rightarrow> string" where
  "installedNotice fullName installToActive extra =
     ''Installed '' @ fullName @ (if installToActive then '' to active vault'' else []) @ extra @ ''.''"

text \<open>A natural number in decimal, as a template literal renders it.\<close>

fun showNat :: "nat \<Rightarrow> string" where
  "showNat n =
     (if n < 10 then [''0123456789'' ! n]
      else showNat (n div 10) @ [''0123456789'' ! (n mod 10)])"

declare showNat.simps [simp del]

text \<open>\<^verbatim>\<open>installPluginFromGithub\<close> after the check of the required assets.\<close>

definition installAssets ::
  "network \<Rightarrow> 'fs host \<Rightarrow> string \<Rightarrow> bool \<Rightarrow> Asset \<times> Asset \<times> Asset option \<Rightarrow> (unit, 'fs) io"
  where
  "installAssets net h fullName showNotice found =
     (case found of (mainJs, manifestJson, stylesCss) \<Rightarrow>
     bind (fetchManifest net manifestJson)
       (\<lambda>manifest.
     bind (trackRepo h (rm_id manifest) fullName)
       (\<lambda>_.
     bind (request (DownloadRequest (browser_download_url mainJs))
             (downloadText net (browser_download_url mainJs)))
       (\<lambda>mainJsText.
     bind (case stylesCss of
             None \<Rightarrow> ret None
           | Some css \<Rightarrow>
               bind (request (DownloadRequest (browser_download_url css))
                       (downloadText net (browser_download_url css)))
                 (\<lambda>text. ret (Some text)))
       (\<lambda>stylesContent.
     bind (\<lambda>w. (Inr (installLocation (settings w) = LocActive \<or> installLocation (settings w) = LocAll),
                 w))
       (\<lambda>installToActive.
     bind (if installToActive
           then writeToActiveVault h (configDir h @ ''/plugins/'' @ rm_id manifest) mainJsText
                  (rm_json manifest) stylesContent
           else ret ())
       (\<lambda>_.
     bind (copyToExtraVaults h (rm_id manifest) mainJsText (rm_json manifest) stylesContent)
       (\<lambda>targetVaultsCount.
     bind (\<lambda>w. case loadManifests h (files w) of
                  Some m \<Rightarrow> (Inl (HostError m), w)
                | None \<Rightarrow> (Inr (), w))
       (\<lambda>_.
          if showNotice
          then emit (Notice (installedNotice fullName installToActive
                 (if targetVaultsCount > 0
                  then '' and '' @ showNat targetVaultsCount @ '' extra vaults'' else [])))
          else ret ())))))))))"

definition installPluginFromGithub ::
  "network \<Rightarrow> 'fs host \<Rightarrow> string \<Rightarrow> bool \<Rightarrow> (unit, 'fs) io" where
  "installPluginFromGithub net h fullName showNotice =
     bind (requiredAssets net fullName) (installAssets net h fullName showNotice)"

section \<open>The update check\<close>

datatype Source = Official | Tracked | Detected | UnknownSource

datatype VersionStatus = UpdateAvailable | UpToDate | LocalNewer | UnknownVersion

text \<open>
  \<^verbatim>\<open>interface PluginUpdateCandidate\<close>. The field \<^verbatim>\<open>repo\<close> is declared a string; it holds
  what the resolution found, which for a read of \<^verbatim>\<open>installedRepoMap\<close> can be a member of
  \<^verbatim>\<open>Object.prototype\<close>.
\<close>

record PluginUpdateCandidate =
  pluginId :: string
  currentVersion :: string
  latestVersion :: "string option"
  repo :: "property_value option"
  source :: Source
  versionStatus :: VersionStatus
  needsUpdate :: bool
  errorText :: "string option"

text \<open>
  \<^verbatim>\<open>getLatestManifestVersionFromRepo\<close>: the latest release, \<^verbatim>\<open>release.assets || []\<close>, the
  asset \<^verbatim>\<open>manifest.json\<close> with a download URL, its download, and
  \<^verbatim>\<open>manifestResp.json?.version || null\<close>.
\<close>

definition getLatestManifestVersionFromRepo :: "network \<Rightarrow> string \<Rightarrow> (string option, 'fs) io" where
  "getLatestManifestVersionFromRepo net fullName =
     bind (request (LatestReleaseRequest fullName) (latestRelease net fullName))
       (\<lambda>release.
          case findAsset ''manifest.json'' (case assets release of None \<Rightarrow> [] | Some as \<Rightarrow> as) of
            None \<Rightarrow> ret None
          | Some manifestAsset \<Rightarrow>
              if browser_download_url manifestAsset = [] then ret None
              else
                bind (request (DownloadRequest (browser_download_url manifestAsset))
                        (downloadManifest net (browser_download_url manifestAsset)))
                  (\<lambda>body.
                     ret (case body of
                            None \<Rightarrow> None
                          | Some manifest \<Rightarrow>
                              if truthy (rm_version manifest) then rm_version manifest else None)))"

text \<open>
  \<^verbatim>\<open>repoById\<close>: the map from the official list, an entry with an id and a repository
  overwriting an earlier one with the same id.
\<close>

definition repoByIdOf :: "OfficialCommunityPlugin list \<Rightarrow> (string \<rightharpoonup> string)" where
  "repoByIdOf officialPlugins =
     foldl (\<lambda>m p. if ocp_id p \<noteq> [] \<and> ocp_repo p \<noteq> [] then m(ocp_id p \<mapsto> ocp_repo p) else m)
       Map.empty officialPlugins"

definition unmappedReason :: string where
  "unmappedReason = ''Could not map plugin to a GitHub repository.''"

text \<open>
  The resolution of the repository in the loop of \<^verbatim>\<open>checkInstalledPluginUpdates\<close>, from
  \<^verbatim>\<open>let repo = repoById.get(pluginId)\<close> to the end of \<^verbatim>\<open>if (!repo) { ... detected ... }\<close>.
  The result is \<^verbatim>\<open>repo\<close>, \<^verbatim>\<open>source\<close>, \<^verbatim>\<open>unresolvedReason\<close> and whether the mapping changed.
  \<^verbatim>\<open>repoById\<close> is a \<^verbatim>\<open>Map\<close>, whose \<^verbatim>\<open>get\<close> finds its entries only;
  \<^verbatim>\<open>this.settings.installedRepoMap[pluginId]\<close> is a read of a property of a plain object.
\<close>

definition resolveRepo ::
  "network \<Rightarrow> (string \<rightharpoonup> string) \<Rightarrow> string \<Rightarrow> PackageManifest \<Rightarrow>
     (property_value option \<times> Source \<times> string \<times> bool, 'fs) io" where
  "resolveRepo net repoById pluginId' installedManifest =
     (\<lambda>w.
        if truthy (repoById pluginId')
        then (Inr (map_option StringValue (repoById pluginId'), Official, unmappedReason, False), w)
        else if truthyValue (getProperty (installedRepoMap (settings w)) pluginId')
        then (Inr (getProperty (installedRepoMap (settings w)) pluginId', Tracked, unmappedReason,
                   False), w)
        else
          (let detected = findRepoByManifestId net pluginId' installedManifest;
               w' = w\<lparr> events := events w @ map Req (snd detected) \<rparr>;
               repo' = det_repo (fst detected)
           in if truthy repo'
              then (Inr (map_option StringValue repo', Detected, unmappedReason, True),
                    w'\<lparr> settings := (settings w')
                          \<lparr> installedRepoMap :=
                              setProperty (installedRepoMap (settings w')) pluginId' (the repo') \<rparr> \<rparr>)
              else (Inr (map_option StringValue repo', UnknownSource,
                         (if truthy (det_reason (fst detected)) then the (det_reason (fst detected))
                          else unmappedReason),
                         False),
                    w')))"

text \<open>The candidates that the loop pushes.\<close>

definition unresolvedCandidate :: "string \<Rightarrow> string \<Rightarrow> string \<Rightarrow> PluginUpdateCandidate" where
  "unresolvedCandidate pluginId' currentVersion' unresolvedReason =
     \<lparr> pluginId = pluginId', currentVersion = currentVersion', latestVersion = None, repo = None,
       source = UnknownSource, versionStatus = UnknownVersion, needsUpdate = False,
       errorText = Some unresolvedReason \<rparr>"

definition failedCandidate ::
  "string \<Rightarrow> string \<Rightarrow> property_value option \<Rightarrow> Source \<Rightarrow> string \<Rightarrow>
     PluginUpdateCandidate" where
  "failedCandidate pluginId' currentVersion' repo' source' message =
     \<lparr> pluginId = pluginId', currentVersion = currentVersion', latestVersion = None, repo = repo',
       source = source', versionStatus = UnknownVersion, needsUpdate = False,
       errorText = Some message \<rparr>"

definition comparedCandidate ::
  "string \<Rightarrow> string \<Rightarrow> string \<Rightarrow> property_value option \<Rightarrow> Source \<Rightarrow>
     PluginUpdateCandidate" where
  "comparedCandidate pluginId' currentVersion' latestVersion' repo' source' =
     (let versionCompare = compareVersions currentVersion' latestVersion'
      in \<lparr> pluginId = pluginId', currentVersion = currentVersion',
           latestVersion = Some latestVersion', repo = repo', source = source',
           versionStatus = (if versionCompare < 0 then UpdateAvailable
                            else if versionCompare = 0 then UpToDate else LocalNewer),
           needsUpdate = (versionCompare < 0), errorText = None \<rparr>)"

text \<open>
  The \<^verbatim>\<open>try\<close> and \<^verbatim>\<open>catch\<close> around the fetch of the latest version. The repository goes
  into the URL of the request through a template literal.
\<close>

definition versionCandidate ::
  "network \<Rightarrow> string \<Rightarrow> string \<Rightarrow> property_value \<Rightarrow> Source \<Rightarrow>
     (PluginUpdateCandidate, 'fs) io" where
  "versionCandidate net pluginId' currentVersion' repo' source' =
     tryCatch
       (bind (getLatestManifestVersionFromRepo net (templateString repo'))
          (\<lambda>latestVersion'.
             ret (case latestVersion' of
                    None \<Rightarrow> failedCandidate pluginId' currentVersion' (Some repo') source'
                              ''No manifest.json in latest release.''
                  | Some v \<Rightarrow> comparedCandidate pluginId' currentVersion' v (Some repo') source')))
       (\<lambda>e. ret (failedCandidate pluginId' currentVersion' (Some repo') source'
                   (if messageOf e = [] then ''Failed to check latest release.''
                    else messageOf e)))"

text \<open>
  The body of \<^verbatim>\<open>for (const pluginId of installedPluginIds)\<close>, with \<^verbatim>\<open>candidates\<close> and
  \<^verbatim>\<open>mappingChanged\<close> carried along. The entry is the id with \<^verbatim>\<open>manifests[pluginId]\<close>.
\<close>

definition checkPlugin ::
  "network \<Rightarrow> 'fs host \<Rightarrow> (string \<rightharpoonup> string) \<Rightarrow> PluginUpdateCandidate list \<times> bool \<Rightarrow>
     string \<times> PackageManifest \<Rightarrow> (PluginUpdateCandidate list \<times> bool, 'fs) io" where
  "checkPlugin net h repoById acc entry =
     (\<lambda>w.
        (let installedManifest =
               (case readManifestFromDisk h (files w) (fst entry) of
                  Some m \<Rightarrow> m
                | None \<Rightarrow> snd entry);
             currentVersion' =
               (if truthy (m_version installedManifest) then the (m_version installedManifest)
                else ''0.0.0'')
         in bind (resolveRepo net repoById (fst entry) installedManifest)
              (\<lambda>resolved.
                 case resolved of (repo', source', unresolvedReason, changed) \<Rightarrow>
                   bind (if \<not> truthyValue repo'
                         then ret (unresolvedCandidate (fst entry) currentVersion' unresolvedReason)
                         else versionCandidate net (fst entry) currentVersion' (the repo') source')
                     (\<lambda>candidate. ret (fst acc @ [candidate], snd acc \<or> changed))) w))"

text \<open>The comparator given to \<^verbatim>\<open>candidates.sort\<close>.\<close>

definition candidateCompare ::
  "(string \<Rightarrow> string \<Rightarrow> int) \<Rightarrow> PluginUpdateCandidate \<Rightarrow> PluginUpdateCandidate \<Rightarrow> int" where
  "candidateCompare localeCompare' a b =
     (if needsUpdate a \<noteq> needsUpdate b then (if needsUpdate a then - 1 else 1)
      else localeCompare' (pluginId a) (pluginId b))"

text \<open>
  \<^verbatim>\<open>Array.prototype.sort\<close> with a comparator. The sort of ECMAScript is stable, and for a
  consistent comparator its result is the one stable sorted arrangement, which insertion from
  the right computes; for a comparator that is not consistent the order is left to the
  implementation and this model says nothing.
\<close>

fun insertSorted :: "('a \<Rightarrow> 'a \<Rightarrow> int) \<Rightarrow> 'a \<Rightarrow> 'a list \<Rightarrow> 'a list" where
  "insertSorted cmp x [] = [x]"
| "insertSorted cmp x (y # ys) =
     (if cmp x y \<le> 0 then x # y # ys else y # insertSorted cmp x ys)"

definition sortWith :: "('a \<Rightarrow> 'a \<Rightarrow> int) \<Rightarrow> 'a list \<Rightarrow> 'a list" where
  "sortWith cmp xs = foldr (insertSorted cmp) xs []"

text \<open>
  A consistent comparator: equal to itself, of opposite sign when the arguments are swapped,
  and transitive.
\<close>

definition consistentComparator :: "('a \<Rightarrow> 'a \<Rightarrow> int) \<Rightarrow> bool" where
  "consistentComparator cmp \<longleftrightarrow>
     (\<forall>a. cmp a a = 0) \<and>
     (\<forall>a b. (cmp a b < 0) = (cmp b a > 0)) \<and>
     (\<forall>a b c. cmp a b \<le> 0 \<and> cmp b c \<le> 0 \<longrightarrow> cmp a c \<le> 0)"

text \<open>
  \<^verbatim>\<open>checkInstalledPluginUpdates\<close>. The attempt to reload the manifests at its start is
  caught whatever it throws; \<open>manifests h\<close> is what the plugin manager holds after it.
\<close>

definition checkInstalledPluginUpdates ::
  "network \<Rightarrow> 'fs host \<Rightarrow> (PluginUpdateCandidate list, 'fs) io" where
  "checkInstalledPluginUpdates net h =
     (\<lambda>w.
        if manifests h (files w) = [] then (Inr [], w)
        else
          bind (request OfficialListRequest (officialList net))
            (\<lambda>json.
               (let officialPlugins = (case json of None \<Rightarrow> [] | Some ps \<Rightarrow> ps);
                    repoById = repoByIdOf officialPlugins
                in bind (foldIO (manifests h (files w)) ([], False) (checkPlugin net h repoById))
                     (\<lambda>result.
                   bind (if snd result then saveSettings h else ret ())
                     (\<lambda>_. ret (sortWith (candidateCompare (localeCompare h)) (fst result)))))) w)"

text \<open>The map of the official list that a run on this network builds (empty when the request
  for the list fails: the run then ends with that failure).\<close>

definition officialRepoById :: "network \<Rightarrow> (string \<rightharpoonup> string)" where
  "officialRepoById net =
     repoByIdOf (case officialList net of Inl e \<Rightarrow> [] | Inr None \<Rightarrow> [] | Inr (Some ps) \<Rightarrow> ps)"

text \<open>The requests of the detection: the verification of a candidate repository and the
  search.\<close>

fun isDetectionEvent :: "event \<Rightarrow> bool" where
  "isDetectionEvent (Req (HeadManifestRequest r)) = True"
| "isDetectionEvent (Req (SearchRequest q s)) = True"
| "isDetectionEvent _ = False"

text \<open>
  The invariant of a candidate in the proofs: the chain from \<^verbatim>\<open>needsUpdate\<close> to the
  repository, and that a repository that is no string is the member of \<^verbatim>\<open>Object.prototype\<close>
  named by the id of the plugin, found by the read of \<^verbatim>\<open>installedRepoMap\<close>.
\<close>

definition candidateInvariant :: "PluginUpdateCandidate \<Rightarrow> bool" where
  "candidateInvariant c \<longleftrightarrow>
     (needsUpdate c \<longrightarrow> versionStatus c = UpdateAvailable) \<and>
     (versionStatus c = UpdateAvailable \<longrightarrow> truthyValue (repo c)) \<and>
     (\<forall>name. repo c = Some (FunctionValue name) \<longrightarrow>
        source c = Tracked \<and> name = pluginId c \<and> name \<in> set objectPrototypeFunctions) \<and>
     (repo c = Some PrototypeObject \<longrightarrow> source c = Tracked \<and> pluginId c = ''__proto__'')"


text \<open>
  Modelled from the spec: the lexicographic order of two package ids, which compares them
  code unit by code unit and puts a proper prefix first. The result is negative, zero or
  positive as the first id is before, equal to or after the second.
\<close>

fun lexicographicCompare :: "string \<Rightarrow> string \<Rightarrow> int" where
  "lexicographicCompare [] [] = 0"
| "lexicographicCompare [] (y # ys) = - 1"
| "lexicographicCompare (x # xs) [] = 1"
| "lexicographicCompare (x # xs) (y # ys) =
     (if (of_char x :: nat) < of_char y then - 1
      else if (of_char y :: nat) < of_char x then 1
      else lexicographicCompare xs ys)"

section \<open>Example inputs\<close>

text \<open>A failure of a request with the given status.\<close>

definition httpFailure :: "nat \<Rightarrow> http_error" where
  "httpFailure status = \<lparr> err_status = Some status, err_message = ''Request failed'' \<rparr>"

text \<open>A plugin whose manifest names no author URL, so that the pattern tier has no owner.\<close>

definition anonymousManifest :: PackageManifest where
  "anonymousManifest = \<lparr> m_version = Some ''1.0.0'', m_name = None, m_authorUrl = None \<rparr>"



text \<open>
  A host without a file system of its own (\<open>'fs\<close> is \<^typ>\<open>unit\<close>): every call of the vault
  adapter succeeds, nothing is installed, and Node's file system refuses every write below
  \<^verbatim>\<open>/v1\<close> and accepts every other one.
\<close>

definition joinPath :: "string list \<Rightarrow> string" where
  "joinPath parts = foldr (\<lambda>a b. if b = [] then a else a @ ''/'' @ b) parts []"

definition v1ReadOnlyFs :: "unit node_fs" where
  "v1ReadOnlyFs =
     \<lparr> existsSync = (\<lambda>fs p. False),
       readdirSync = (\<lambda>fs p. Inr []),
       statIsDirectory = (\<lambda>fs p. Inr False),
       mkdirSync = (\<lambda>fs p. Inr fs),
       writeFileSync =
         (\<lambda>fs p content. if startsWith p ''/v1'' then Inl ''EACCES: permission denied'' else Inr fs),
       path_join = joinPath \<rparr>"

definition exampleHost :: "unit host" where
  "exampleHost =
     \<lparr> configDir = ''.obsidian'',
       adapter_exists = (\<lambda>fs p. Inr False),
       adapter_mkdir = (\<lambda>fs p. Inr fs),
       adapter_write = (\<lambda>fs p content. Inr fs),
       saveData = (\<lambda>s. None),
       loadManifests = (\<lambda>fs. None),
       manifests = (\<lambda>fs. []),
       readManifestFromDisk = (\<lambda>fs p. None),
       localeCompare = (\<lambda>a b. 0),
       node = Some v1ReadOnlyFs \<rparr>"

text \<open>
  The state at the start: the default settings with the given location and extra vaults,
  nothing stored, and \<^verbatim>\<open>installedRepoMap\<close> the object of the defaults.
\<close>

definition startWorld :: "InstallLocation \<Rightarrow> string list \<Rightarrow> unit world" where
  "startWorld location vaults =
     \<lparr> settings = DEFAULT_SETTINGS \<lparr> installLocation := location, extraVaultPaths := vaults \<rparr>,
       saved = None, detachedDefaults = None, files = (), events = [] \<rparr>"

text \<open>A network whose latest release of every repository has the given assets, and on which
  every download succeeds; the manifest downloaded is that of the plugin \<^verbatim>\<open>p\<close>.\<close>

definition releaseNet :: "string list \<Rightarrow> network" where
  "releaseNet names =
     \<lparr> headManifest = (\<lambda>r. Inl (httpFailure 404)),
       searchRepositories = (\<lambda>q s. Inr (Some [])),
       latestRelease =
         (\<lambda>r. Inr \<lparr> assets = Some (map (\<lambda>n. \<lparr> asset_name = n, browser_download_url = n \<rparr>) names) \<rparr>),
       downloadManifest =
         (\<lambda>u. Inr (Some \<lparr> rm_id = ''p'', rm_version = Some ''1.0.0'', rm_json = ''{}'' \<rparr>)),
       downloadText = (\<lambda>u. Inr ''text''),
       officialList = Inr (Some []) \<rparr>"

text \<open>
  A collation for the examples: letters in alphabetical order whatever their case, and for
  strings that differ in case only the one with the lower case letter first. On strings of
  ASCII letters this is the order of the runtime's \<^verbatim>\<open>localeCompare\<close>, for which
  \<^verbatim>\<open>'a'.localeCompare('B')\<close> is negative.
\<close>

definition alphabeticCompare :: "string \<Rightarrow> string \<Rightarrow> int" where
  "alphabeticCompare a b =
     (if lexicographicCompare (toLowerCase a) (toLowerCase b) \<noteq> 0
      then lexicographicCompare (toLowerCase a) (toLowerCase b)
      else lexicographicCompare b a)"

text \<open>The example host with the given installed plugins and this collation.\<close>

definition checkHost :: "(string \<times> PackageManifest) list \<Rightarrow> unit host" where
  "checkHost installed =
     exampleHost \<lparr> manifests := (\<lambda>fs. installed), localeCompare := alphabeticCompare \<rparr>"

text \<open>An installed manifest of version 0.9.0 whose author is \<^verbatim>\<open>acme\<close>.\<close>

definition acmeManifest :: PackageManifest where
  "acmeManifest =
     \<lparr> m_version = Some ''0.9.0'', m_name = Some ''P'', m_authorUrl = Some ''github.com/acme'' \<rparr>"

text \<open>
  A network whose official list maps each of the given ids to the repository \<^verbatim>\<open>o/\<close>\<open>id\<close>, and
  on which the latest release of every repository has a manifest of version 1.0.0.
\<close>

definition officialEntry :: "string \<Rightarrow> OfficialCommunityPlugin" where
  "officialEntry ident =
     \<lparr> ocp_id = ident, ocp_repo = ''o/'' @ ident, ocp_name = None, ocp_author = None,
       ocp_description = None \<rparr>"

definition officialNet :: "string list \<Rightarrow> network" where
  "officialNet idents =
     (releaseNet [''main.js'', ''manifest.json''])
       \<lparr> officialList := Inr (Some (map officialEntry idents)) \<rparr>"

text \<open>The state at the start with one tracked repository.\<close>

definition trackedWorld :: "string \<Rightarrow> string \<Rightarrow> unit world" where
  "trackedWorld ident repository =
     (startWorld LocAll [])
       \<lparr> settings := DEFAULT_SETTINGS \<lparr> installedRepoMap := [ident \<mapsto> repository] \<rparr> \<rparr>"

text \<open>
  A network with an empty official list, on which the repository \<^verbatim>\<open>acme/obsidian-p\<close> has
  the manifest of the plugin \<^verbatim>\<open>p\<close> at its head, and no other repository has one.
\<close>

definition detectNet :: network where
  "detectNet =
     (releaseNet [''main.js'', ''manifest.json''])
       \<lparr> headManifest :=
           (\<lambda>r. if r = ''acme/obsidian-p'' then Inr (200, Some ''p'') else Inl (httpFailure 404)) \<rparr>"

text \<open>A candidate whose repository \<^verbatim>\<open>o/\<close>\<open>ident\<close> comes from the official list, with the latest
  version 1.0.0.\<close>

definition officialCandidate ::
  "string \<Rightarrow> string \<Rightarrow> VersionStatus \<Rightarrow> bool \<Rightarrow> PluginUpdateCandidate" where
  "officialCandidate ident current status needs =
     \<lparr> pluginId = ident, currentVersion = current, latestVersion = Some ''1.0.0'',
       repo = Some (StringValue (''o/'' @ ident)), source = Official, versionStatus = status,
       needsUpdate = needs, errorText = None \<rparr>"

text \<open>The candidate of the plugin \<^verbatim>\<open>p\<close> at version 0.9.0 with the repository
  \<^verbatim>\<open>acme/obsidian-p\<close>, whose latest version is 1.0.0.\<close>

definition acmeCandidate :: "Source \<Rightarrow> PluginUpdateCandidate" where
  "acmeCandidate source' =
     \<lparr> pluginId = ''p'', currentVersion = ''0.9.0'', latestVersion = Some ''1.0.0'',
       repo = Some (StringValue ''acme/obsidian-p''), source = source', versionStatus = UpdateAvailable,
       needsUpdate = True, errorText = None \<rparr>"

text \<open>The candidate of a plugin with the id \<^verbatim>\<open>constructor\<close> at version 0.9.0, for which the
  read of \<^verbatim>\<open>installedRepoMap\<close> found the function of the prototype.\<close>

definition constructorCandidate :: PluginUpdateCandidate where
  "constructorCandidate =
     \<lparr> pluginId = ''constructor'', currentVersion = ''0.9.0'', latestVersion = Some ''1.0.0'',
       repo = Some (FunctionValue ''constructor''), source = Tracked,
       versionStatus = UpdateAvailable, needsUpdate = True, errorText = None \<rparr>"

text \<open>
  A response of the forum search with one topic, a post of that topic, and a post of another
  topic.
\<close>

definition kanbanTopic :: ForumItem where
  "kanbanTopic =
     \<lparr> item_title = ''Kanban plugin'', item_slug = ''kanban'', item_id = 7,
       item_posts_count = Some 3, item_like_count = None, item_views = Some 90,
       item_tags = None \<rparr>"

definition kanbanPost :: ForumPost where
  "kanbanPost =
     \<lparr> topic_title = ''Kanban plugin (post)'', topic_slug = ''kanban'', topic_id = 7,
       post_like_count = Some 1 \<rparr>"

definition tasksPost :: ForumPost where
  "tasksPost =
     \<lparr> topic_title = ''Tasks plugin'', topic_slug = ''tasks'', topic_id = 9,
       post_like_count = Some 2 \<rparr>"

definition forumResponse :: ForumData where
  "forumResponse = \<lparr> topics = Some [kanbanTopic], posts = Some [kanbanPost, tasksPost] \<rparr>"

text \<open>The example host, on which every save of the settings fails.\<close>

definition failingSaveHost :: "(string \<times> PackageManifest) list \<Rightarrow> unit host" where
  "failingSaveHost installed = (checkHost installed) \<lparr> saveData := (\<lambda>s. Some ''EIO'') \<rparr>"

text \<open>A forum that answers the search for \<^verbatim>\<open>kanban\<close> in category 9 with this response, and
  fails with status 503 for every other URL.\<close>

definition forumNet :: "string \<Rightarrow> http_error + ForumData option" where
  "forumNet url =
     (if url = ''https://forum.obsidian.md/search.json?q=kanban category:9''
      then Inr (Some forumResponse)
      else Inl \<lparr> err_status = Some 503, err_message = ''down'' \<rparr>)"

section \<open>Properties of the version comparison\<close>

lemma num_less_irrefl: "\<not> num_less x x"
  by (cases x) auto

lemma num_less_asym: "num_less x y \<Longrightarrow> \<not> num_less y x"
  by (cases x; cases y) auto

lemma num_less_trans: "num_less x y \<Longrightarrow> num_less y z \<Longrightarrow> num_less x z"
  by (cases x; cases y; cases z) auto

lemma num_less_total: "x \<noteq> NaN \<Longrightarrow> y \<noteq> NaN \<Longrightarrow> \<not> num_less x y \<Longrightarrow> \<not> num_less y x \<Longrightarrow> x = y"
  by (cases x; cases y) auto

lemma orZero_not_NaN: "orZero x \<noteq> NaN"
  by (simp add: orZero_def)

lemma normalize_version_not_NaN: "NaN \<notin> set (normalize_version v)"
proof
  assume "NaN \<in> set (normalize_version v)"
  then obtain p where "NaN = orZero (parseInt p)"
    unfolding normalize_version_def by auto
  then show False using orZero_not_NaN [of "parseInt p"] by simp
qed

lemma partAt_not_NaN: "NaN \<notin> set ps \<Longrightarrow> partAt ps i \<noteq> NaN"
proof (cases "i < length ps")
  case True
  assume "NaN \<notin> set ps"
  moreover have "ps ! i \<in> set ps" using True by simp
  ultimately have "ps ! i \<noteq> NaN" by metis
  then show ?thesis using True by (simp add: partAt_def)
next
  case False
  then show ?thesis by (simp add: partAt_def)
qed

lemma component_not_NaN: "component v i \<noteq> NaN"
  by (simp add: component_def partAt_not_NaN normalize_version_not_NaN)

lemma compareFrom_range: "compareFrom cs ls m i \<in> {- 1, 0, 1}"
  by (induction cs ls m i rule: compareFrom.induct)
     (subst compareFrom.simps, simp add: Let_def)

lemma compareFrom_flip: "compareFrom ls cs m i = - compareFrom cs ls m i"
proof (induction cs ls m i rule: compareFrom.induct)
  case (1 cs ls m i)
  show ?case
  proof (cases "i < m")
    case True
    then show ?thesis
      using "1.IH" num_less_asym [of "partAt cs i" "partAt ls i"]
      by (subst (1 2) compareFrom.simps) (auto simp: Let_def)
  next
    case False
    then show ?thesis by (simp add: compareFrom.simps)
  qed
qed

lemma compareFrom_zero:
  "compareFrom cs ls m i = 0 \<longleftrightarrow>
     (\<forall>j. i \<le> j \<and> j < m \<longrightarrow> \<not> num_less (partAt cs j) (partAt ls j) \<and> \<not> num_less (partAt ls j) (partAt cs j))"
proof (induction cs ls m i rule: compareFrom.induct)
  case (1 cs ls m i)
  show ?case
  proof (cases "i < m")
    case True
    note lt = this
    show ?thesis
    proof (cases "num_less (partAt cs i) (partAt ls i) \<or> num_less (partAt ls i) (partAt cs i)")
      case True
      then show ?thesis using lt
        by (subst compareFrom.simps) (auto simp: Let_def)
    next
      case False
      then have "compareFrom cs ls m i = compareFrom cs ls m (i + 1)"
        using lt by (subst compareFrom.simps) (simp add: Let_def)
      moreover have "compareFrom cs ls m (i + 1) = 0 \<longleftrightarrow>
         (\<forall>j. i + 1 \<le> j \<and> j < m \<longrightarrow> \<not> num_less (partAt cs j) (partAt ls j) \<and> \<not> num_less (partAt ls j) (partAt cs j))"
        using "1.IH" lt False by simp
      moreover have "(\<forall>j. i + 1 \<le> j \<and> j < m \<longrightarrow> \<not> num_less (partAt cs j) (partAt ls j) \<and> \<not> num_less (partAt ls j) (partAt cs j))
          \<longleftrightarrow> (\<forall>j. i \<le> j \<and> j < m \<longrightarrow> \<not> num_less (partAt cs j) (partAt ls j) \<and> \<not> num_less (partAt ls j) (partAt cs j))"
        using False by (metis Suc_eq_plus1 Suc_leI le_neq_implies_less Suc_leD)
      ultimately show ?thesis by simp
    qed
  next
    case False
    then show ?thesis by (auto simp: compareFrom.simps)
  qed
qed

lemma compareFrom_neg:
  "compareFrom cs ls m i = - 1 \<longleftrightarrow>
     (\<exists>k. i \<le> k \<and> k < m \<and> num_less (partAt cs k) (partAt ls k) \<and>
        (\<forall>j. i \<le> j \<and> j < k \<longrightarrow> \<not> num_less (partAt cs j) (partAt ls j) \<and> \<not> num_less (partAt ls j) (partAt cs j)))"
  (is "?L cs ls m i \<longleftrightarrow> ?R cs ls m i")
proof (induction cs ls m i rule: compareFrom.induct)
  case (1 cs ls m i)
  show ?case
  proof (cases "i < m")
    case True
    note lt = this
    consider (less) "num_less (partAt cs i) (partAt ls i)"
      | (greater) "\<not> num_less (partAt cs i) (partAt ls i)" "num_less (partAt ls i) (partAt cs i)"
      | (same) "\<not> num_less (partAt cs i) (partAt ls i)" "\<not> num_less (partAt ls i) (partAt cs i)"
      by blast
    then show ?thesis
    proof cases
      case less
      then have "compareFrom cs ls m i = - 1"
        using lt by (subst compareFrom.simps) (simp add: Let_def)
      moreover have "?R cs ls m i"
        using less lt by (intro exI [of _ i]) auto
      ultimately show ?thesis by simp
    next
      case greater
      then have "compareFrom cs ls m i = 1"
        using lt by (subst compareFrom.simps) (simp add: Let_def)
      moreover have "\<not> ?R cs ls m i"
      proof
        assume "?R cs ls m i"
        then obtain k where k: "i \<le> k" "num_less (partAt cs k) (partAt ls k)"
          "\<forall>j. i \<le> j \<and> j < k \<longrightarrow> \<not> num_less (partAt cs j) (partAt ls j) \<and> \<not> num_less (partAt ls j) (partAt cs j)"
          by blast
        show False
        proof (cases "k = i")
          case True then show ?thesis using k greater by simp
        next
          case False then have "i < k" using k by simp
          then show ?thesis using k(3) greater by blast
        qed
      qed
      ultimately show ?thesis by simp
    next
      case same
      then have "compareFrom cs ls m i = compareFrom cs ls m (i + 1)"
        using lt by (subst compareFrom.simps) (simp add: Let_def)
      moreover have "?L cs ls m (i + 1) \<longleftrightarrow> ?R cs ls m (i + 1)"
        using "1.IH" lt same by simp
      moreover have "?R cs ls m (i + 1) \<longleftrightarrow> ?R cs ls m i"
      proof
        assume "?R cs ls m (i + 1)"
        then obtain k where k: "i + 1 \<le> k" "k < m" "num_less (partAt cs k) (partAt ls k)"
          "\<forall>j. i + 1 \<le> j \<and> j < k \<longrightarrow> \<not> num_less (partAt cs j) (partAt ls j) \<and> \<not> num_less (partAt ls j) (partAt cs j)"
          by blast
        have "\<forall>j. i \<le> j \<and> j < k \<longrightarrow> \<not> num_less (partAt cs j) (partAt ls j) \<and> \<not> num_less (partAt ls j) (partAt cs j)"
        proof (intro allI impI)
          fix j assume j: "i \<le> j \<and> j < k"
          show "\<not> num_less (partAt cs j) (partAt ls j) \<and> \<not> num_less (partAt ls j) (partAt cs j)"
          proof (cases "j = i")
            case True then show ?thesis using same by simp
          next
            case False then have "i + 1 \<le> j" using j by simp
            then show ?thesis using k(4) j by blast
          qed
        qed
        then show "?R cs ls m i" using k by (intro exI [of _ k]) auto
      next
        assume "?R cs ls m i"
        then obtain k where k: "i \<le> k" "k < m" "num_less (partAt cs k) (partAt ls k)"
          "\<forall>j. i \<le> j \<and> j < k \<longrightarrow> \<not> num_less (partAt cs j) (partAt ls j) \<and> \<not> num_less (partAt ls j) (partAt cs j)"
          by blast
        have "k \<noteq> i" using k(3) same by auto
        then have "i + 1 \<le> k" using k(1) by simp
        then show "?R cs ls m (i + 1)" using k by (intro exI [of _ k]) auto
      qed
      ultimately show ?thesis by simp
    qed
  next
    case False
    then show ?thesis by (auto simp: compareFrom.simps)
  qed
qed

lemma compareFrom_pos:
  "compareFrom cs ls m i = 1 \<longleftrightarrow>
     (\<exists>k. i \<le> k \<and> k < m \<and> num_less (partAt ls k) (partAt cs k) \<and>
        (\<forall>j. i \<le> j \<and> j < k \<longrightarrow> \<not> num_less (partAt cs j) (partAt ls j) \<and> \<not> num_less (partAt ls j) (partAt cs j)))"
proof -
  have "compareFrom cs ls m i = 1 \<longleftrightarrow> compareFrom ls cs m i = - 1"
    by (simp add: compareFrom_flip [of ls cs])
  then show ?thesis
    unfolding compareFrom_neg by (simp add: conj_commute)
qed

lemma partAt_beyond: "length ps \<le> i \<Longrightarrow> partAt ps i = Fin 0"
  by (simp add: partAt_def)

lemma same_iff:
  "x \<noteq> NaN \<Longrightarrow> y \<noteq> NaN \<Longrightarrow> (\<not> num_less x y \<and> \<not> num_less y x) \<longleftrightarrow> x = y"
  using num_less_total num_less_irrefl by blast

lemma compareVersions_zero:
  "compareVersions a b = 0 \<longleftrightarrow> (\<forall>i. component a i = component b i)"
proof -
  let ?m = "max (length (normalize_version a)) (length (normalize_version b))"
  have "compareVersions a b = 0 \<longleftrightarrow>
      (\<forall>j. j < ?m \<longrightarrow> component a j = component b j)"
    by (simp add: compareVersions_def Let_def compareFrom_zero component_def [symmetric]
        same_iff component_not_NaN)
  also have "\<dots> \<longleftrightarrow> (\<forall>i. component a i = component b i)"
  proof
    assume h: "\<forall>j. j < ?m \<longrightarrow> component a j = component b j"
    show "\<forall>i. component a i = component b i"
    proof
      fix i
      show "component a i = component b i"
      proof (cases "i < ?m")
        case True then show ?thesis using h by blast
      next
        case False
        then show ?thesis by (simp add: component_def partAt_beyond)
      qed
    qed
  qed blast
  finally show ?thesis .
qed

lemma compareVersions_neg:
  "compareVersions a b = - 1 \<longleftrightarrow>
     (\<exists>k. num_less (component a k) (component b k) \<and> (\<forall>j<k. component a j = component b j))"
proof -
  let ?m = "max (length (normalize_version a)) (length (normalize_version b))"
  have "compareVersions a b = - 1 \<longleftrightarrow>
      (\<exists>k. k < ?m \<and> num_less (component a k) (component b k) \<and> (\<forall>j<k. component a j = component b j))"
    by (simp add: compareVersions_def Let_def compareFrom_neg component_def [symmetric]
        same_iff component_not_NaN)
  also have "\<dots> \<longleftrightarrow>
      (\<exists>k. num_less (component a k) (component b k) \<and> (\<forall>j<k. component a j = component b j))"
  proof
    assume "\<exists>k. num_less (component a k) (component b k) \<and> (\<forall>j<k. component a j = component b j)"
    then obtain k where k: "num_less (component a k) (component b k)"
      "\<forall>j<k. component a j = component b j" by blast
    have "k < ?m"
    proof (rule ccontr)
      assume "\<not> k < ?m"
      then have "component a k = Fin 0" "component b k = Fin 0"
        by (simp_all add: component_def partAt_beyond)
      then show False using k(1) by simp
    qed
    then show "\<exists>k. k < ?m \<and> num_less (component a k) (component b k) \<and> (\<forall>j<k. component a j = component b j)"
      using k by blast
  qed blast
  finally show ?thesis .
qed

lemma compareVersions_flip: "compareVersions b a = - compareVersions a b"
  by (simp add: compareVersions_def Let_def max.commute compareFrom_flip [of "normalize_version b"])

lemma compareVersions_range: "compareVersions a b \<in> {- 1, 0, 1}"
  by (simp add: compareVersions_def Let_def compareFrom_range del: insert_iff)

lemma hd_split_str: "hd (split_str sep v) = takeWhile (\<lambda>c. c \<noteq> sep) v"
  by (induction v) auto

lemma normalize_version_alt:
  "normalize_version v =
     map (\<lambda>part. orZero (parseInt part)) (split_str CHR ''.'' (takeWhile (\<lambda>c. c \<noteq> CHR ''-'') v))"
  by (simp add: normalize_version_def hd_split_str)

lemma normalize_version_suffix:
  "normalize_version (takeWhile (\<lambda>c. c \<noteq> CHR ''-'') v) = normalize_version v"
  by (simp add: normalize_version_alt)

lemma compareVersions_suffix:
  "compareVersions (takeWhile (\<lambda>c. c \<noteq> CHR ''-'') a) b = compareVersions a b"
  "compareVersions a (takeWhile (\<lambda>c. c \<noteq> CHR ''-'') b) = compareVersions a b"
  by (simp_all add: compareVersions_def normalize_version_suffix)

lemma digit_not_space: "isDigit c \<Longrightarrow> \<not> isWhiteSpace c"
  by (auto simp: isDigit_def isWhiteSpace_def)

lemma digit_not_sign: "isDigit c \<Longrightarrow> c \<noteq> CHR ''-'' \<and> c \<noteq> CHR ''+''"
  by (auto simp: isDigit_def)

lemma parseInt_digits:
  assumes "ds \<noteq> []" "\<forall>c\<in>set ds. isDigit c" "digitsVal ds < 2 ^ 53"
  shows "orZero (parseInt ds) = Fin (int (digitsVal ds))"
proof -
  have c: "isDigit (hd ds)" using assms(1,2) by (cases ds) auto
  have t: "trimStart ds = ds"
    using digit_not_space [OF c] assms(1) by (cases ds) (auto simp: trimStart_def)
  have sg: "hd ds \<noteq> CHR ''-''" "hd ds \<noteq> CHR ''+''"
    using digit_not_sign [OF c] by auto
  have z: "takeWhile isDigit ds = ds"
    using assms(2) by (simp add: takeWhile_eq_all_conv)
  have d: "toDouble (digitsVal ds) = Some (digitsVal ds)"
    using assms(3) by (simp add: toDouble_def)
  have "parseInt ds = Fin (int (digitsVal ds))"
    by (simp add: parseInt_def t Let_def sg z d assms(1))
  then show ?thesis by (simp add: orZero_def)
qed

lemma lex_trans:
  fixes A B C :: "nat \<Rightarrow> number"
  assumes nn: "\<And>i. A i \<noteq> NaN" "\<And>i. B i \<noteq> NaN" "\<And>i. C i \<noteq> NaN"
    and ab: "\<And>k. (\<forall>j<k. A j = B j) \<Longrightarrow> \<not> num_less (B k) (A k)"
    and bc: "\<And>k. (\<forall>j<k. B j = C j) \<Longrightarrow> \<not> num_less (C k) (B k)"
    and ac: "\<forall>j<k. A j = C j"
  shows "\<not> num_less (C k) (A k)"
proof -
  have eq: "j < k \<Longrightarrow> A j = B j \<and> B j = C j" for j
  proof (induction j rule: less_induct)
    case (less j)
    then have prev: "\<forall>i<j. A i = B i" "\<forall>i<j. B i = C i" by auto
    have 1: "\<not> num_less (B j) (A j)" using ab prev(1) by blast
    have 2: "\<not> num_less (C j) (B j)" using bc prev(2) by blast
    have 3: "A j = C j" using ac less.prems by blast
    have "\<not> num_less (A j) (B j)" using 2 3 by simp
    then have "A j = B j" using 1 num_less_total nn by blast
    then show ?case using 3 by simp
  qed
  then have prev: "\<forall>j<k. A j = B j" "\<forall>j<k. B j = C j" by auto
  have 1: "\<not> num_less (B k) (A k)" using ab prev(1) by blast
  have 2: "\<not> num_less (C k) (B k)" using bc prev(2) by blast
  show ?thesis
  proof
    assume ca: "num_less (C k) (A k)"
    have "\<not> num_less (A k) (B k)"
      using ca 2 num_less_trans by blast
    then have "A k = B k" using 1 num_less_total nn by blast
    then show False using ca 2 by simp
  qed
qed

lemma compareVersions_pos:
  "compareVersions a b = 1 \<longleftrightarrow>
     (\<exists>k. num_less (component b k) (component a k) \<and> (\<forall>j<k. component a j = component b j))"
proof -
  have "compareVersions a b = 1 \<longleftrightarrow> compareVersions b a = - 1"
    by (simp add: compareVersions_flip [of a b])
  also have "\<dots> \<longleftrightarrow>
     (\<exists>k. num_less (component b k) (component a k) \<and> (\<forall>j<k. component b j = component a j))"
    by (rule compareVersions_neg)
  also have "\<dots> \<longleftrightarrow>
     (\<exists>k. num_less (component b k) (component a k) \<and> (\<forall>j<k. component a j = component b j))"
    by (simp add: eq_commute)
  finally show ?thesis .
qed

lemma compareVersions_le_iff:
  "compareVersions a b \<le> 0 \<longleftrightarrow>
     (\<forall>k. (\<forall>j<k. component a j = component b j) \<longrightarrow> \<not> num_less (component b k) (component a k))"
proof -
  have "compareVersions a b \<le> 0 \<longleftrightarrow> compareVersions a b \<noteq> 1"
    using compareVersions_range [of a b] by auto
  then show ?thesis unfolding compareVersions_pos by blast
qed

lemma compareVersions_trans:
  assumes "compareVersions a b \<le> 0" "compareVersions b c \<le> 0"
  shows "compareVersions a c \<le> 0"
  unfolding compareVersions_le_iff
proof (intro allI impI)
  fix k assume "\<forall>j<k. component a j = component c j"
  then show "\<not> num_less (component c k) (component a k)"
    using lex_trans [of "component a" "component b" "component c" k]
      assms [unfolded compareVersions_le_iff] component_not_NaN
    by blast
qed

lemmas version_eval =
  normalize_version_def parseInt_def trimStart_def isWhiteSpace_def isDigit_def digitsVal_def
  digitVal_def toDouble_def orZero_def compareVersions_def compareFrom.simps partAt_def

lemma compareVersions_example_trailing_zero: "compareVersions ''1.2.0'' ''1.2'' = 0"
  by (simp add: version_eval)

lemma compareVersions_example_prerelease: "compareVersions ''1.0.0-beta'' ''1.0.0'' = 0"
  by (simp add: version_eval)

lemma compareVersions_example_greater: "compareVersions ''2.0'' ''1.9.9'' = 1"
  by (simp add: version_eval)


lemma normalize_version_example_noise: "normalize_version ''1.x.3'' = [Fin 1, Fin 0, Fin 3]"
  by (simp add: version_eval)

text \<open>
  Claim C1. For every pair of version strings \<^verbatim>\<open>compareVersions\<close> returns \<open>-1\<close>, \<open>0\<close> or \<open>1\<close>
  (the model is a total function: nothing is thrown). Everything from the first hyphen on is
  dropped, the rest is split on \<open>.\<close>, each part is read by \<^verbatim>\<open>parseInt\<close> with \<open>0\<close> for a
  part that does not parse (a part of digits below \<open>2 ^ 53\<close> is read as that integer), and a
  component past the end of a sequence counts as \<open>0\<close>. The result is decided by the first index
  at which the components differ: \<open>0\<close> when all components agree, \<open>-1\<close> when the first
  differing component of the first version is the smaller one, \<open>1\<close> when it is the larger one.
  \<^verbatim>\<open>compareVersions("1.2.0","1.2")\<close> and \<^verbatim>\<open>compareVersions("1.0.0-beta","1.0.0")\<close> are
  \<open>0\<close>, \<^verbatim>\<open>compareVersions("2.0","1.9.9")\<close> is \<open>1\<close>, and the comparison is antisymmetric
  and transitive.
\<close>

theorem compareVersions_correct:
  "compareVersions a b \<in> {- 1, 0, 1}
   \<and> normalize_version a =
       map (\<lambda>part. orZero (parseInt part))
         (split_str CHR ''.'' (takeWhile (\<lambda>c. c \<noteq> CHR ''-'') a))
   \<and> (ds \<noteq> [] \<and> (\<forall>c\<in>set ds. isDigit c) \<and> digitsVal ds < 2 ^ 53 \<longrightarrow>
         orZero (parseInt ds) = Fin (int (digitsVal ds)))
   \<and> normalize_version ''1.x.3'' = [Fin 1, Fin 0, Fin 3]
   \<and> component a i \<noteq> NaN
   \<and> (length (normalize_version a) \<le> i \<longrightarrow> component a i = Fin 0)
   \<and> (compareVersions a b = 0 \<longleftrightarrow> (\<forall>k. component a k = component b k))
   \<and> (compareVersions a b = - 1 \<longleftrightarrow>
         (\<exists>k. num_less (component a k) (component b k) \<and>
              (\<forall>j<k. component a j = component b j)))
   \<and> (compareVersions a b = 1 \<longleftrightarrow>
         (\<exists>k. num_less (component b k) (component a k) \<and>
              (\<forall>j<k. component a j = component b j)))
   \<and> compareVersions ''1.2.0'' ''1.2'' = 0
   \<and> compareVersions ''1.0.0-beta'' ''1.0.0'' = 0
   \<and> compareVersions ''2.0'' ''1.9.9'' = 1
   \<and> compareVersions b a = - compareVersions a b
   \<and> (compareVersions a b \<le> 0 \<and> compareVersions b c \<le> 0 \<longrightarrow> compareVersions a c \<le> 0)"
proof -
  have "length (normalize_version a) \<le> i \<longrightarrow> component a i = Fin 0"
    by (simp add: component_def partAt_beyond)
  moreover have "ds \<noteq> [] \<and> (\<forall>c\<in>set ds. isDigit c) \<and> digitsVal ds < 2 ^ 53 \<longrightarrow>
      orZero (parseInt ds) = Fin (int (digitsVal ds))"
    using parseInt_digits by blast
  moreover have "compareVersions a b \<le> 0 \<and> compareVersions b c \<le> 0 \<longrightarrow>
      compareVersions a c \<le> 0"
    using compareVersions_trans by blast
  ultimately show ?thesis
    using compareVersions_range [of a b] normalize_version_alt [of a]
      normalize_version_example_noise component_not_NaN [of a i]
      compareVersions_zero [of a b] compareVersions_neg [of a b] compareVersions_pos [of a b]
      compareVersions_example_trailing_zero compareVersions_example_prerelease
      compareVersions_example_greater compareVersions_flip [of b a]
    by blast
qed

theorem compareVersions_correct_witness:
  "compareVersions ''1.2'' ''1.2.0'' \<le> 0 \<and> compareVersions ''1.2.0'' ''2.0-rc.1'' \<le> 0
   \<and> compareVersions ''1.2'' ''2.0-rc.1'' \<le> 0
   \<and> orZero (parseInt ''12'') = Fin 12
   \<and> component ''1.2'' 5 = Fin 0"
proof -
  have h1: "compareVersions ''1.2'' ''1.2.0'' \<le> 0"
    by (simp add: version_eval)
  have h2: "compareVersions ''1.2.0'' ''2.0-rc.1'' \<le> 0"
    by (simp add: version_eval)
  have h3: "''12'' \<noteq> [] \<and> (\<forall>c\<in>set ''12''. isDigit c) \<and> digitsVal ''12'' < 2 ^ 53"
    by (simp add: isDigit_def digitsVal_def digitVal_def)
  have h4: "length (normalize_version ''1.2'') \<le> 5"
    by (simp add: version_eval)
  have v: "int (digitsVal ''12'') = 12"
    by (simp add: digitsVal_def digitVal_def)
  show ?thesis
    using compareVersions_correct [where a = "''1.2''" and b = "''1.2.0''" and c = "''2.0-rc.1''"
        and ds = "''12''" and i = 5] h1 h2 h3 h4 v
    by simp
qed

section \<open>Properties of the string and list operations\<close>

lemma startsWith_iff: "startsWith s p \<longleftrightarrow> (\<exists>post. s = p @ post)"
  by (induction s p rule: startsWith.induct) auto

lemma includes_str_iff: "includes_str s sub \<longleftrightarrow> (\<exists>pre post. s = pre @ sub @ post)"
proof (induction s)
  case Nil
  then show ?case by auto
next
  case (Cons c cs)
  show ?case
  proof
    assume "includes_str (c # cs) sub"
    then consider "startsWith (c # cs) sub" | "includes_str cs sub" by auto
    then show "\<exists>pre post. c # cs = pre @ sub @ post"
    proof cases
      case 1
      then obtain post where "c # cs = sub @ post" using startsWith_iff by blast
      then have "c # cs = [] @ sub @ post" by simp
      then show ?thesis by blast
    next
      case 2
      then obtain pre post where "cs = pre @ sub @ post" using Cons.IH by blast
      then have "c # cs = (c # pre) @ sub @ post" by simp
      then show ?thesis by blast
    qed
  next
    assume "\<exists>pre post. c # cs = pre @ sub @ post"
    then obtain pre post where eq: "c # cs = pre @ sub @ post" by blast
    show "includes_str (c # cs) sub"
    proof (cases pre)
      case Nil
      then have "startsWith (c # cs) sub" using eq startsWith_iff by auto
      then show ?thesis by simp
    next
      case (Cons d pre')
      then have "cs = pre' @ sub @ post" using eq by simp
      then have "includes_str cs sub" using Cons.IH by blast
      then show ?thesis by simp
    qed
  qed
qed

lemmas string_eval =
  toLowerCase_def toLowerChar_def upperCaseChars_def lowerCaseChars_def trim_def
  isWhiteSpace_def endsWithChar_def

lemma uniqueBy_keys: "set (map key (uniqueBy key seen xs)) = key ` set xs - seen"
  by (induction xs arbitrary: seen) auto

lemma uniqueBy_distinct: "distinct (map key (uniqueBy key seen xs))"
  by (induction xs arbitrary: seen) (auto simp: uniqueBy_keys simp del: set_map)

lemma uniqueBy_find:
  "find (\<lambda>y. key y = k) (uniqueBy key seen xs) =
     (if k \<in> seen then None else find (\<lambda>y. key y = k) xs)"
  by (induction xs arbitrary: seen) auto

lemma uniqueBy_subseq: "set (uniqueBy key seen xs) \<subseteq> set xs"
  by (induction xs arbitrary: seen) auto

lemma find_map_key:
  "find (\<lambda>r. g r = k) (map f xs) = map_option f (find (\<lambda>x. g (f x) = k) xs)"
  by (induction xs) auto

lemma find_append_case:
  "find P (xs @ ys) = (case find P xs of None \<Rightarrow> find P ys | Some x \<Rightarrow> Some x)"
  by (induction xs) auto

lemma find_None_notin: "k \<notin> f ` set xs \<Longrightarrow> find (\<lambda>x. f x = k) xs = None"
  by (induction xs) auto

lemma uniqueBy_snoc:
  "uniqueBy key seen (xs @ [x]) =
     uniqueBy key seen xs @ (if key x \<in> seen \<union> key ` set xs then [] else [x])"
  by (induction xs arbitrary: seen) auto

lemma uniqueBy_id_distinct: "distinct (uniqueBy (\<lambda>c. c) seen xs)"
  using uniqueBy_distinct [of "\<lambda>c. c" seen xs] by simp

lemma uniqueBy_id_set: "set (uniqueBy (\<lambda>c. c) seen xs) = set xs - seen"
  using uniqueBy_keys [of "\<lambda>c. c" seen xs] by simp

section \<open>Properties of the candidate repositories\<close>

lemmas token_eval =
  tokenOf_def stripHyphens_def isTokenChar_def normalizeRepoToken_def compactRepoToken_def
  truthy_def withToken_def

text \<open>The shape of the output of the run replacement.\<close>

lemma replaceRuns_chars:
  "set (replaceRuns b cs) \<subseteq> {c. isTokenChar c} \<union> {CHR ''-''}"
  by (induction cs arbitrary: b) auto

lemma hyphen_not_token: "\<not> isTokenChar CHR ''-''"
  by (simp add: isTokenChar_def)

lemma replaceRuns_no_double:
  "\<not> (\<exists>pre post. replaceRuns b cs = pre @ ''--'' @ post) \<and>
   (b \<longrightarrow> replaceRuns b cs = [] \<or> hd (replaceRuns b cs) \<noteq> CHR ''-'')"
proof (induction cs arbitrary: b)
  case Nil
  then show ?case by simp
next
  case (Cons c cs)
  show ?case
  proof (cases "isTokenChar c")
    case True
    then have c: "c \<noteq> CHR ''-''" using hyphen_not_token by auto
    have "\<not> (\<exists>pre post. c # replaceRuns False cs = pre @ ''--'' @ post)"
    proof
      assume "\<exists>pre post. c # replaceRuns False cs = pre @ ''--'' @ post"
      then obtain pre post where eq: "c # replaceRuns False cs = pre @ ''--'' @ post" by blast
      show False
      proof (cases pre)
        case Nil then show ?thesis using eq c by simp
      next
        case (Cons d pre')
        then have "replaceRuns False cs = pre' @ ''--'' @ post" using eq by simp
        then show ?thesis using Cons.IH [of False] by blast
      qed
    qed
    then show ?thesis using True c by simp
  next
    case False
    note nt = this
    show ?thesis
    proof (cases b)
      case True
      then show ?thesis using nt Cons.IH [of True] by simp
    next
      case False
      have "\<not> (\<exists>pre post. CHR ''-'' # replaceRuns True cs = pre @ ''--'' @ post)"
      proof
        assume "\<exists>pre post. CHR ''-'' # replaceRuns True cs = pre @ ''--'' @ post"
        then obtain pre post where eq: "CHR ''-'' # replaceRuns True cs = pre @ ''--'' @ post"
          by blast
        show False
        proof (cases pre)
          case Nil
          then have "replaceRuns True cs = CHR ''-'' # post" using eq by simp
          then show ?thesis using Cons.IH [of True] by simp
        next
          case (Cons d pre')
          then have "replaceRuns True cs = pre' @ ''--'' @ post" using eq by simp
          then show ?thesis using Cons.IH [of True] by blast
        qed
      qed
      then show ?thesis using nt False by simp
    qed
  qed
qed

lemma rev_dropWhile_split:
  "xs = rev (dropWhile P (rev xs)) @ rev (takeWhile P (rev xs))"
proof -
  have "rev xs = takeWhile P (rev xs) @ dropWhile P (rev xs)" by simp
  then have "rev (rev xs) = rev (takeWhile P (rev xs) @ dropWhile P (rev xs))"
    by (rule arg_cong)
  then show ?thesis by (simp only: rev_rev_ident rev_append)
qed

lemma stripHyphens_infix: "\<exists>a b. s = a @ stripHyphens s @ b"
proof -
  let ?P = "\<lambda>c. c = CHR ''-''"
  define d where "d = dropWhile ?P s"
  define t where "t = rev (takeWhile ?P (rev d))"
  have 1: "takeWhile ?P s @ d = s" by (simp add: d_def)
  have "d = rev (dropWhile ?P (rev d)) @ rev (takeWhile ?P (rev d))"
    by (rule rev_dropWhile_split)
  then have 2: "d = stripHyphens s @ t"
    by (simp only: stripHyphens_def d_def [symmetric] t_def [symmetric])
  have "takeWhile ?P s @ stripHyphens s @ t = s"
    using 1 by (simp only: 2 [symmetric])
  then have "s = takeWhile ?P s @ stripHyphens s @ t" by (rule sym)
  then show ?thesis by blast
qed

lemma stripHyphens_ends:
  assumes ne: "stripHyphens s \<noteq> []"
  shows "hd (stripHyphens s) \<noteq> CHR ''-'' \<and> last (stripHyphens s) \<noteq> CHR ''-''"
proof -
  let ?P = "\<lambda>c. c = CHR ''-''"
  define d where "d = dropWhile ?P s"
  define r where "r = dropWhile ?P (rev d)"
  define t where "t = rev (takeWhile ?P (rev d))"
  have st: "stripHyphens s = rev r" by (simp add: stripHyphens_def r_def d_def)
  have r: "r \<noteq> []" using ne st by simp
  have "\<not> ?P (hd r)" using r unfolding r_def by (rule hd_dropWhile)
  then have l: "last (stripHyphens s) \<noteq> CHR ''-''"
    using r st by (simp add: last_rev)
  have d: "d \<noteq> []" using r unfolding r_def by auto
  have "\<not> ?P (hd d)" using d unfolding d_def by (rule hd_dropWhile)
  then have hd: "hd d \<noteq> CHR ''-''" by simp
  have "d = rev (dropWhile ?P (rev d)) @ rev (takeWhile ?P (rev d))"
    by (rule rev_dropWhile_split)
  then have "d = rev r @ t" by (simp only: r_def [symmetric] t_def [symmetric])
  then have "hd d = hd (rev r @ t)" by (rule arg_cong)
  also have "\<dots> = hd (rev r)" using r by simp
  finally have "hd (stripHyphens s) = hd d" using st by simp
  then show ?thesis using hd l by simp
qed

lemma tokenOf_chars: "set (tokenOf s) \<subseteq> {c. isTokenChar c} \<union> {CHR ''-''}"
proof -
  obtain a b where "replaceRuns False (trim (toLowerCase s)) = a @ tokenOf s @ b"
    using stripHyphens_infix unfolding tokenOf_def by blast
  then have "set (tokenOf s) \<subseteq> set (replaceRuns False (trim (toLowerCase s)))"
    by (metis Un_upper1 Un_upper2 set_append subset_trans)
  then show ?thesis using replaceRuns_chars by blast
qed

lemma tokenOf_no_double: "\<not> (\<exists>pre post. tokenOf s = pre @ ''--'' @ post)"
proof
  assume "\<exists>pre post. tokenOf s = pre @ ''--'' @ post"
  then obtain pre post where t: "tokenOf s = pre @ ''--'' @ post" by blast
  obtain a b where "replaceRuns False (trim (toLowerCase s)) = a @ tokenOf s @ b"
    using stripHyphens_infix unfolding tokenOf_def by blast
  then have "replaceRuns False (trim (toLowerCase s)) = (a @ pre) @ ''--'' @ (post @ b)"
    using t by simp
  then show False using replaceRuns_no_double by blast
qed

lemma tokenOf_ends:
  "tokenOf s \<noteq> [] \<Longrightarrow> hd (tokenOf s) \<noteq> CHR ''-'' \<and> last (tokenOf s) \<noteq> CHR ''-''"
  unfolding tokenOf_def by (rule stripHyphens_ends)

lemma tokenOf_empty: "tokenOf [] = []"
  by (simp add: tokenOf_def stripHyphens_def trim_def toLowerCase_def)

lemma compact_nonempty:
  assumes "tokenOf s \<noteq> []"
  shows "filter (\<lambda>c. c \<noteq> CHR ''-'') (tokenOf s) \<noteq> []"
proof -
  have "hd (tokenOf s) \<in> set (tokenOf s)" using assms by simp
  moreover have "hd (tokenOf s) \<noteq> CHR ''-''" using tokenOf_ends assms by blast
  ultimately show ?thesis by (auto simp: filter_empty_conv)
qed

lemma normalizeRepoToken_Some:
  "normalizeRepoToken (Some s) = (if s = [] then None else Some (tokenOf s))"
  by (simp add: normalizeRepoToken_def)

lemma withToken_normalize:
  "withToken (normalizeRepoToken (Some s)) f = (if tokenOf s = [] then None else Some (f (tokenOf s)))"
  using tokenOf_empty by (auto simp: withToken_def normalizeRepoToken_def)

lemma withToken_compact:
  "withToken (compactRepoToken (Some s)) f =
     (if tokenOf s = [] then None else Some (f (filter (\<lambda>c. c \<noteq> CHR ''-'') (tokenOf s))))"
  using tokenOf_empty compact_nonempty [of s]
  by (auto simp: withToken_def compactRepoToken_def normalizeRepoToken_def truthy_def)

lemma withToken_None:
  "withToken (normalizeRepoToken None) f = None" "withToken (compactRepoToken None) f = None"
  by (simp_all add: withToken_def normalizeRepoToken_def compactRepoToken_def truthy_def)


text \<open>The entries that one token contributes: none when the token is empty.\<close>

lemma candidates_of_tokens:
  "filterBoolean
     [withToken (normalizeRepoToken (Some pid)) f1, withToken (normalizeRepoToken (Some pid)) f2,
      withToken (compactRepoToken (Some pid)) f3,
      withToken (normalizeRepoToken (Some n)) f4, withToken (normalizeRepoToken (Some n)) f5,
      withToken (compactRepoToken (Some n)) f6,
      withToken (normalizeRepoToken (Some pid)) f7] =
   (if tokenOf pid = [] then []
    else filterBoolean [Some (f1 (tokenOf pid)), Some (f2 (tokenOf pid)),
           Some (f3 (filter (\<lambda>c. c \<noteq> CHR ''-'') (tokenOf pid)))]) @
   (if tokenOf n = [] then []
    else filterBoolean [Some (f4 (tokenOf n)), Some (f5 (tokenOf n)),
           Some (f6 (filter (\<lambda>c. c \<noteq> CHR ''-'') (tokenOf n)))]) @
   (if tokenOf pid = [] then [] else filterBoolean [Some (f7 (tokenOf pid))])"
  unfolding withToken_normalize withToken_compact
  by (cases "tokenOf pid = []"; cases "tokenOf n = []") simp_all

lemma candidates_of_id_token:
  "filterBoolean
     [withToken (normalizeRepoToken (Some pid)) f1, withToken (normalizeRepoToken (Some pid)) f2,
      withToken (compactRepoToken (Some pid)) f3,
      withToken (normalizeRepoToken None) f4, withToken (normalizeRepoToken None) f5,
      withToken (compactRepoToken None) f6,
      withToken (normalizeRepoToken (Some pid)) f7] =
   (if tokenOf pid = [] then []
    else filterBoolean [Some (f1 (tokenOf pid)), Some (f2 (tokenOf pid)),
           Some (f3 (filter (\<lambda>c. c \<noteq> CHR ''-'') (tokenOf pid))), Some (f7 (tokenOf pid))])"
  unfolding withToken_normalize withToken_compact withToken_None
  by (cases "tokenOf pid = []") simp_all

lemma patternCandidates_id_only:
  "patternCandidates ow pid None =
     uniqueBy (\<lambda>c. c) {}
       (if tokenOf pid = [] then []
        else [ow @ ''/obsidian-'' @ tokenOf pid, ow @ ''/'' @ tokenOf pid,
              ow @ ''/'' @ filter (\<lambda>c. c \<noteq> CHR ''-'') (tokenOf pid),
              ow @ ''/obsidian-plugin-'' @ tokenOf pid])"
proof -
  have "patternCandidates ow pid None =
     uniqueBy (\<lambda>c. c) {}
       (if tokenOf pid = [] then []
        else filterBoolean [Some (ow @ ''/obsidian-'' @ tokenOf pid), Some (ow @ ''/'' @ tokenOf pid),
              Some (ow @ ''/'' @ filter (\<lambda>c. c \<noteq> CHR ''-'') (tokenOf pid)),
              Some (ow @ ''/obsidian-plugin-'' @ tokenOf pid)])"
    unfolding patternCandidates_def Let_def candidates_of_id_token ..
  then show ?thesis by (simp del: uniqueBy.simps)
qed

lemma patternCandidates_general:
  "patternCandidates ow pid (Some n) =
     uniqueBy (\<lambda>c. c) {}
       ((if tokenOf pid = [] then []
         else [ow @ ''/obsidian-'' @ tokenOf pid, ow @ ''/'' @ tokenOf pid,
               ow @ ''/'' @ filter (\<lambda>c. c \<noteq> CHR ''-'') (tokenOf pid)]) @
        (if tokenOf n = [] then []
         else [ow @ ''/obsidian-'' @ tokenOf n, ow @ ''/'' @ tokenOf n,
               ow @ ''/'' @ filter (\<lambda>c. c \<noteq> CHR ''-'') (tokenOf n)]) @
        (if tokenOf pid = [] then [] else [ow @ ''/obsidian-plugin-'' @ tokenOf pid]))"
proof -
  have "patternCandidates ow pid (Some n) =
     uniqueBy (\<lambda>c. c) {}
       ((if tokenOf pid = [] then []
         else filterBoolean [Some (ow @ ''/obsidian-'' @ tokenOf pid), Some (ow @ ''/'' @ tokenOf pid),
               Some (ow @ ''/'' @ filter (\<lambda>c. c \<noteq> CHR ''-'') (tokenOf pid))]) @
        (if tokenOf n = [] then []
         else filterBoolean [Some (ow @ ''/obsidian-'' @ tokenOf n), Some (ow @ ''/'' @ tokenOf n),
               Some (ow @ ''/'' @ filter (\<lambda>c. c \<noteq> CHR ''-'') (tokenOf n))]) @
        (if tokenOf pid = [] then []
         else filterBoolean [Some (ow @ ''/obsidian-plugin-'' @ tokenOf pid)]))"
    unfolding patternCandidates_def Let_def candidates_of_tokens ..
  then show ?thesis by (simp del: uniqueBy.simps)
qed

lemma patternCandidates_spec:
  assumes "tokenOf pid \<noteq> []" "tokenOf n \<noteq> []"
  shows "patternCandidates ow pid (Some n) = spec_patternCandidates ow pid n"
  unfolding patternCandidates_general spec_patternCandidates_def Let_def
  using assms by (simp del: uniqueBy.simps)


lemma tokenOf_quick_add: "tokenOf ''quick-add'' = ''quick-add''"
  by (simp add: token_eval string_eval)

lemma patternCandidates_quick_add:
  "take 3 (patternCandidates ''acme'' ''quick-add'' name) =
     [''acme/obsidian-quick-add'', ''acme/quick-add'', ''acme/quickadd'']"
proof (cases name)
  case None
  show ?thesis
    unfolding None patternCandidates_id_only tokenOf_quick_add by simp
next
  case (Some n)
  show ?thesis
    unfolding Some patternCandidates_general tokenOf_quick_add by simp
qed

lemma patternCandidates_example_empty_name_token: "patternCandidates ''acme'' ''quick-add'' (Some ''***'') =
     [''acme/obsidian-quick-add'', ''acme/quick-add'', ''acme/quickadd'',
      ''acme/obsidian-plugin-quick-add'']"
proof -
  have "tokenOf ''***'' = []" by (simp add: token_eval string_eval)
  then show ?thesis
    unfolding patternCandidates_general tokenOf_quick_add by simp
qed

lemma spec_patternCandidates_example_empty_name_token: "spec_patternCandidates ''acme'' ''quick-add'' ''***'' =
     [''acme/obsidian-quick-add'', ''acme/quick-add'', ''acme/quickadd'',
      ''acme/obsidian-'', ''acme/'', ''acme/obsidian-plugin-quick-add'']"
proof -
  have "tokenOf ''***'' = []" by (simp add: token_eval string_eval)
  then show ?thesis
    unfolding spec_patternCandidates_def Let_def tokenOf_quick_add by simp
qed


lemma firstMatching_fst:
  "fst (firstMatching net pid rs) = find (\<lambda>r. repoMatchesPluginId net r pid) rs"
  by (induction rs) auto


lemma matchOwner_nonempty: "matchOwner u = Some g \<Longrightarrow> g \<noteq> []"
  by (induction u) (auto simp: matchOwnerAt_def Let_def split: if_splits option.splits)

lemma parseGithubOwner_truthy:
  "parseGithubOwnerFromAuthorUrl a = Some g \<Longrightarrow> truthy (parseGithubOwnerFromAuthorUrl a)"
  using matchOwner_nonempty
  by (auto simp: parseGithubOwnerFromAuthorUrl_def truthy_def split: option.splits if_splits)

lemma parseGithubOwner_falsy:
  "\<not> truthy (parseGithubOwnerFromAuthorUrl a) \<longleftrightarrow> parseGithubOwnerFromAuthorUrl a = None"
  using parseGithubOwner_truthy [of a] by (auto simp: truthy_def)

lemma findRepoByKnownPatterns_owner:
  assumes "parseGithubOwnerFromAuthorUrl (m_authorUrl manifest) = Some ow"
  shows "findRepoByKnownPatterns net pid manifest =
     firstMatching net pid (patternCandidates ow pid (m_name manifest))"
  using assms parseGithubOwner_truthy [OF assms]
  by (simp add: findRepoByKnownPatterns_def Let_def)

lemma findRepoByKnownPatterns_no_owner:
  assumes "parseGithubOwnerFromAuthorUrl (m_authorUrl manifest) = None"
  shows "findRepoByKnownPatterns net pid manifest = (None, [])"
  using assms by (simp add: findRepoByKnownPatterns_def Let_def truthy_def)

text \<open>
  Claim C3, as stated, fails: for the owner \<^verbatim>\<open>acme\<close>, the id \<^verbatim>\<open>quick-add\<close> and the manifest
  name \<^verbatim>\<open>***\<close>, whose token is empty, the source leaves the three entries of the name out,
  and the sequence of the claim has \<^verbatim>\<open>acme/obsidian-\<close> and \<^verbatim>\<open>acme/\<close> for them.
\<close>

theorem patternCandidates_counterexample:
  "patternCandidates ''acme'' ''quick-add'' (Some ''***'') =
     [''acme/obsidian-quick-add'', ''acme/quick-add'', ''acme/quickadd'',
      ''acme/obsidian-plugin-quick-add'']
   \<and> spec_patternCandidates ''acme'' ''quick-add'' ''***'' =
     [''acme/obsidian-quick-add'', ''acme/quick-add'', ''acme/quickadd'',
      ''acme/obsidian-'', ''acme/'', ''acme/obsidian-plugin-quick-add'']"
  using patternCandidates_example_empty_name_token
    spec_patternCandidates_example_empty_name_token
  by simp

text \<open>
  Claim C3, amended. For every owner handle, package id and manifest name the candidate list
  of the third tier is the sequence owner/obsidian-<id>, owner/<id>, owner/<compact-id>,
  owner/obsidian-<name>, owner/<name>, owner/<compact-name>, owner/obsidian-plugin-<id> in
  that order, without the entries of a token that is empty or of a name that is absent, and
  with duplicates removed keeping the first occurrence; when both tokens are non-empty it is
  the sequence of the claim. A token is built from lowercase letters, digits and hyphens, has
  no hyphen at either end and no two hyphens in a row; the compact variant drops the hyphens.
  For the owner \<^verbatim>\<open>acme\<close> and the id \<^verbatim>\<open>quick-add\<close> the list begins with
  \<^verbatim>\<open>acme/obsidian-quick-add\<close>, \<^verbatim>\<open>acme/quick-add\<close>, \<^verbatim>\<open>acme/quickadd\<close>, whatever the name.
  The resolver verifies the candidates in this order and returns the first that matches.
\<close>

theorem patternCandidates_amended:
  "patternCandidates ow pid name =
     uniqueBy (\<lambda>c. c) {}
       ((if tokenOf pid = [] then []
         else [ow @ ''/obsidian-'' @ tokenOf pid, ow @ ''/'' @ tokenOf pid,
               ow @ ''/'' @ filter (\<lambda>c. c \<noteq> CHR ''-'') (tokenOf pid)]) @
        (case name of
           None \<Rightarrow> []
         | Some n \<Rightarrow>
             if tokenOf n = [] then []
             else [ow @ ''/obsidian-'' @ tokenOf n, ow @ ''/'' @ tokenOf n,
                   ow @ ''/'' @ filter (\<lambda>c. c \<noteq> CHR ''-'') (tokenOf n)]) @
        (if tokenOf pid = [] then [] else [ow @ ''/obsidian-plugin-'' @ tokenOf pid]))
   \<and> (tokenOf pid \<noteq> [] \<and> tokenOf n \<noteq> [] \<longrightarrow>
        patternCandidates ow pid (Some n) = spec_patternCandidates ow pid n)
   \<and> distinct (patternCandidates ow pid name)
   \<and> uniqueBy (\<lambda>c. c) seen (xs @ [x]) =
       uniqueBy (\<lambda>c. c) seen xs @ (if x \<in> seen \<union> set xs then [] else [x])
   \<and> take 3 (patternCandidates ''acme'' ''quick-add'' name) =
       [''acme/obsidian-quick-add'', ''acme/quick-add'', ''acme/quickadd'']
   \<and> tokenOf s = stripHyphens (replaceRuns False (trim (toLowerCase s)))
   \<and> set (tokenOf s) \<subseteq> set ''abcdefghijklmnopqrstuvwxyz0123456789'' \<union> {CHR ''-''}
   \<and> \<not> (\<exists>pre post. tokenOf s = pre @ ''--'' @ post)
   \<and> (tokenOf s \<noteq> [] \<longrightarrow> hd (tokenOf s) \<noteq> CHR ''-'' \<and> last (tokenOf s) \<noteq> CHR ''-'')
   \<and> (parseGithubOwnerFromAuthorUrl (m_authorUrl manifest) = Some ow \<longrightarrow>
        fst (findRepoByKnownPatterns net pid manifest) =
          find (\<lambda>r. repoMatchesPluginId net r pid) (patternCandidates ow pid (m_name manifest)))
   \<and> (parseGithubOwnerFromAuthorUrl (m_authorUrl manifest) = None \<longrightarrow>
        findRepoByKnownPatterns net pid manifest = (None, []))"
proof -
  have 1: "patternCandidates ow pid name =
     uniqueBy (\<lambda>c. c) {}
       ((if tokenOf pid = [] then []
         else [ow @ ''/obsidian-'' @ tokenOf pid, ow @ ''/'' @ tokenOf pid,
               ow @ ''/'' @ filter (\<lambda>c. c \<noteq> CHR ''-'') (tokenOf pid)]) @
        (case name of
           None \<Rightarrow> []
         | Some n \<Rightarrow>
             if tokenOf n = [] then []
             else [ow @ ''/obsidian-'' @ tokenOf n, ow @ ''/'' @ tokenOf n,
                   ow @ ''/'' @ filter (\<lambda>c. c \<noteq> CHR ''-'') (tokenOf n)]) @
        (if tokenOf pid = [] then [] else [ow @ ''/obsidian-plugin-'' @ tokenOf pid]))"
  proof (cases name)
    case None
    show ?thesis unfolding None patternCandidates_id_only by (simp del: uniqueBy.simps)
  next
    case (Some m)
    show ?thesis unfolding Some patternCandidates_general by (simp del: uniqueBy.simps)
  qed
  have 2: "tokenOf pid \<noteq> [] \<and> tokenOf n \<noteq> [] \<longrightarrow>
        patternCandidates ow pid (Some n) = spec_patternCandidates ow pid n"
    using patternCandidates_spec by blast
  have 3: "distinct (patternCandidates ow pid name)"
    unfolding patternCandidates_def Let_def by (rule uniqueBy_id_distinct)
  have 4: "uniqueBy (\<lambda>c. c) seen (xs @ [x]) =
       uniqueBy (\<lambda>c. c) seen xs @ (if x \<in> seen \<union> set xs then [] else [x])"
    using uniqueBy_snoc [of "\<lambda>c. c" seen xs x] by simp
  have 5: "tokenOf s = stripHyphens (replaceRuns False (trim (toLowerCase s)))"
    by (simp add: tokenOf_def)
  have 6: "set (tokenOf s) \<subseteq> set ''abcdefghijklmnopqrstuvwxyz0123456789'' \<union> {CHR ''-''}"
    using tokenOf_chars [of s] unfolding isTokenChar_def Collect_mem_eq .
  have 7: "tokenOf s \<noteq> [] \<longrightarrow> hd (tokenOf s) \<noteq> CHR ''-'' \<and> last (tokenOf s) \<noteq> CHR ''-''"
    using tokenOf_ends by blast
  have 8: "parseGithubOwnerFromAuthorUrl (m_authorUrl manifest) = Some ow \<longrightarrow>
        fst (findRepoByKnownPatterns net pid manifest) =
          find (\<lambda>r. repoMatchesPluginId net r pid) (patternCandidates ow pid (m_name manifest))"
    by (simp add: findRepoByKnownPatterns_owner firstMatching_fst)
  have 9: "parseGithubOwnerFromAuthorUrl (m_authorUrl manifest) = None \<longrightarrow>
        findRepoByKnownPatterns net pid manifest = (None, [])"
    by (simp add: findRepoByKnownPatterns_no_owner)
  have 10: "take 3 (patternCandidates ''acme'' ''quick-add'' name) =
       [''acme/obsidian-quick-add'', ''acme/quick-add'', ''acme/quickadd'']"
    by (rule patternCandidates_quick_add)
  have 11: "\<not> (\<exists>pre post. tokenOf s = pre @ ''--'' @ post)"
    by (rule tokenOf_no_double)
  show ?thesis
    by (intro conjI) (fact 1, fact 2, fact 3, fact 4, fact 10, fact 5, fact 6, fact 11,
        fact 7, fact 8, fact 9)
qed


theorem patternCandidates_amended_witness:
  "patternCandidates ''acme'' ''quick-add'' (Some ''Quick Add'') =
     spec_patternCandidates ''acme'' ''quick-add'' ''Quick Add''
   \<and> hd (tokenOf ''Quick Add'') \<noteq> CHR ''-''
   \<and> fst (findRepoByKnownPatterns
        \<lparr> headManifest = (\<lambda>r. if r = ''acme/quickadd'' then Inr (200, Some ''quick-add'')
                              else Inl \<lparr> err_status = Some 404, err_message = ''Not Found'' \<rparr>),
          searchRepositories = (\<lambda>q s. Inr None),
          latestRelease = (\<lambda>r. Inr \<lparr> assets = None \<rparr>),
          downloadManifest = (\<lambda>u. Inr None),
          downloadText = (\<lambda>u. Inr []),
          officialList = Inr None \<rparr>
        ''quick-add''
        \<lparr> m_version = Some ''1.0.0'', m_name = Some ''Quick Add'',
          m_authorUrl = Some ''github.com/acme'' \<rparr>) = Some ''acme/quickadd''"
proof -
  let ?net = "\<lparr> headManifest = (\<lambda>r. if r = ''acme/quickadd'' then Inr (200, Some ''quick-add'')
                              else Inl \<lparr> err_status = Some 404, err_message = ''Not Found'' \<rparr>),
          searchRepositories = (\<lambda>q s. Inr None),
          latestRelease = (\<lambda>r. Inr \<lparr> assets = None \<rparr>),
          downloadManifest = (\<lambda>u. Inr None),
          downloadText = (\<lambda>u. Inr []),
          officialList = Inr None \<rparr>"
  let ?m = "\<lparr> m_version = Some ''1.0.0'', m_name = Some ''Quick Add'',
          m_authorUrl = Some ''github.com/acme'' \<rparr>"
  note T = patternCandidates_amended [where ow = "''acme''" and pid = "''quick-add''"
      and name = "Some ''Quick Add''" and n = "''Quick Add''" and s = "''Quick Add''"
      and seen = "{}" and xs = "[]" and x = "''acme/x''" and manifest = ?m and net = ?net]
  have t: "tokenOf ''Quick Add'' = ''quick-add''"
    by (simp add: token_eval string_eval)
  have h1: "tokenOf ''quick-add'' \<noteq> [] \<and> tokenOf ''Quick Add'' \<noteq> []"
    by (simp add: t tokenOf_quick_add)
  have h2: "tokenOf ''Quick Add'' \<noteq> []" by (simp add: t)
  have h3: "parseGithubOwnerFromAuthorUrl (m_authorUrl ?m) = Some ''acme''"
    by (simp add: parseGithubOwnerFromAuthorUrl_def matchOwnerAt_def string_eval)
  have a: "patternCandidates ''acme'' ''quick-add'' (Some ''Quick Add'') =
     spec_patternCandidates ''acme'' ''quick-add'' ''Quick Add''"
    using T h1 by blast
  have b: "hd (tokenOf ''Quick Add'') \<noteq> CHR ''-''"
    using T h2 by blast
  have c: "fst (findRepoByKnownPatterns ?net ''quick-add'' ?m) =
      find (\<lambda>r. repoMatchesPluginId ?net r ''quick-add'')
        (patternCandidates ''acme'' ''quick-add'' (m_name ?m))"
    using T h3 by blast
  have l: "patternCandidates ''acme'' ''quick-add'' (m_name ?m) =
      [''acme/obsidian-quick-add'', ''acme/quick-add'', ''acme/quickadd'',
       ''acme/obsidian-plugin-quick-add'']"
    by (simp add: patternCandidates_general t tokenOf_quick_add)
  have "fst (findRepoByKnownPatterns ?net ''quick-add'' ?m) = Some ''acme/quickadd''"
    unfolding c l by (simp add: repoMatchesPluginId_def)
  then show ?thesis using a b by blast
qed


section \<open>Properties of the installer\<close>

lemmas io_defs = ret_def throw_def bind_def tryCatch_def emit_def request_def hostCall_def
  hostRead_def saveSettings_def

lemmas property_defs = getProperty_def setProperty_def objectPrototypeFunctions_def

text \<open>Which steps can throw an \<open>Error\<close> of the program's own.\<close>

lemma bind_no_Error:
  assumes "\<And>w. fst (m w) \<noteq> Inl (Error msg)" "\<And>x w. fst (f x w) \<noteq> Inl (Error msg)"
  shows "fst (bind m f w) \<noteq> Inl (Error msg)"
  using assms(1) [of w] assms(2) by (auto simp: bind_def split: prod.splits sum.splits)

lemma ret_no_Error: "fst (ret x w) \<noteq> Inl (Error msg)"
  by (simp add: ret_def)

lemma emit_no_Error: "fst (emit ev w) \<noteq> Inl (Error msg)"
  by (simp add: emit_def)

lemma request_no_Error: "fst (request r answer w) \<noteq> Inl (Error msg)"
  by (cases answer) (simp_all add: io_defs)

lemma hostCall_no_Error: "fst (hostCall ev f w) \<noteq> Inl (Error msg)"
  by (simp add: io_defs split: sum.splits)

lemma hostRead_no_Error: "fst (hostRead f w) \<noteq> Inl (Error msg)"
  by (simp add: io_defs split: sum.splits)

lemma saveSettings_no_Error: "fst (saveSettings h w) \<noteq> Inl (Error msg)"
  by (simp add: io_defs split: option.splits)

lemma tryCatch_ret: "\<exists>x. fst (tryCatch m (\<lambda>e. bind (emit ev) (\<lambda>_. ret d)) w) = Inr x"
  by (auto simp: io_defs split: prod.splits sum.splits)

lemma copyToExtraVaults_returns:
  "\<exists>n. fst (copyToExtraVaults h pid a b c w) = Inr n"
  unfolding copyToExtraVaults_def using tryCatch_ret by auto

lemma copyToExtraVaults_no_Error: "fst (copyToExtraVaults h pid a b c w) \<noteq> Inl (Error msg)"
  using copyToExtraVaults_returns [of h pid a b c w] by auto

lemma fetchManifest_no_Error: "fst (fetchManifest net a w) \<noteq> Inl (Error msg)"
  unfolding fetchManifest_def
  by (intro bind_no_Error request_no_Error) (simp add: io_defs split: option.splits)

lemma trackRepo_no_Error: "fst (trackRepo h pid fn w) \<noteq> Inl (Error msg)"
  by (simp add: trackRepo_def saveSettings_no_Error)

lemma writeToActiveVault_no_Error:
  "fst (writeToActiveVault h d a b c w) \<noteq> Inl (Error msg)"
  unfolding writeToActiveVault_def
  by (intro bind_no_Error hostRead_no_Error hostCall_no_Error)
     (auto simp: ret_no_Error hostCall_no_Error split: option.splits)

lemma download_no_Error:
  "fst (bind (request r answer) (\<lambda>text. ret (g text)) w) \<noteq> Inl (Error msg)"
  by (intro bind_no_Error request_no_Error ret_no_Error)

lemma installAssets_no_Error:
  "fst (installAssets net h fn sn found w) \<noteq> Inl (Error msg)"
proof -
  obtain mainJs manifestJson stylesCss where f: "found = (mainJs, manifestJson, stylesCss)"
    by (cases found) auto
  show ?thesis
    unfolding installAssets_def f prod.case
    apply (intro bind_no_Error fetchManifest_no_Error trackRepo_no_Error request_no_Error
        copyToExtraVaults_no_Error)
    apply (auto simp: ret_no_Error emit_no_Error writeToActiveVault_no_Error download_no_Error
        split: option.splits)
    done
qed


lemma requiredAssets_eq:
  "requiredAssets net fullName w =
     ((case latestRelease net fullName of
         Inl e \<Rightarrow> Inl (RequestFailed e)
       | Inr release \<Rightarrow>
           (case assets release of
              None \<Rightarrow> Inl (TypeError ''Cannot read properties of undefined (reading 'find')'')
            | Some as \<Rightarrow>
                if findAsset ''main.js'' as = None \<or> findAsset ''manifest.json'' as = None
                then Inl (Error missingAssetsMessage)
                else Inr (the (findAsset ''main.js'' as), the (findAsset ''manifest.json'' as),
                          findAsset ''styles.css'' as))),
      w\<lparr> events := events w @ [Req (LatestReleaseRequest fullName)] \<rparr>)"
  by (simp add: requiredAssets_def io_defs Let_def split: sum.splits option.splits)

lemma findAsset_None: "findAsset name as = None \<longleftrightarrow> name \<notin> asset_name ` set as"
  by (auto simp: findAsset_def find_None_iff)

lemma install_missing_iff:
  "fst (installPluginFromGithub net h fullName showNotice w) = Inl (Error missingAssetsMessage) \<longleftrightarrow>
     (\<exists>release as. latestRelease net fullName = Inr release \<and> assets release = Some as \<and>
        (''main.js'' \<notin> asset_name ` set as \<or> ''manifest.json'' \<notin> asset_name ` set as))"
proof (cases "latestRelease net fullName")
  case (Inl e)
  then show ?thesis
    by (simp add: installPluginFromGithub_def bind_def requiredAssets_eq)
next
  case (Inr release)
  show ?thesis
  proof (cases "assets release")
    case None
    then show ?thesis using Inr
      by (simp add: installPluginFromGithub_def bind_def requiredAssets_eq)
  next
    case (Some as)
    show ?thesis
    proof (cases "findAsset ''main.js'' as = None \<or> findAsset ''manifest.json'' as = None")
      case True
      then have "fst (installPluginFromGithub net h fullName showNotice w) =
          Inl (Error missingAssetsMessage)"
        using Inr Some by (simp add: installPluginFromGithub_def bind_def requiredAssets_eq)
      then show ?thesis using True Inr Some by (auto simp: findAsset_None)
    next
      case False
      then have "fst (installPluginFromGithub net h fullName showNotice w) \<noteq>
          Inl (Error missingAssetsMessage)"
        using Inr Some installAssets_no_Error
        by (simp add: installPluginFromGithub_def bind_def requiredAssets_eq)
      then show ?thesis using False Inr Some by (auto simp: findAsset_None)
    qed
  qed
qed

lemma install_missing_state:
  assumes "latestRelease net fullName = Inr release" "assets release = Some as"
    "''main.js'' \<notin> asset_name ` set as \<or> ''manifest.json'' \<notin> asset_name ` set as"
  shows "snd (installPluginFromGithub net h fullName showNotice w) =
     w\<lparr> events := events w @ [Req (LatestReleaseRequest fullName)] \<rparr>"
  using assms
  by (auto simp: installPluginFromGithub_def bind_def requiredAssets_eq findAsset_None)

lemmas example_defs =
  releaseNet_def exampleHost_def startWorld_def v1ReadOnlyFs_def joinPath_def httpFailure_def
  DEFAULT_SETTINGS_def

text \<open>
  Claim C6, as stated, fails: a latest release that carries \<^verbatim>\<open>main.js\<close> and no
  \<^verbatim>\<open>manifest.json\<close> has one of the two required assets, and the installation fails with the
  error for missing assets.
\<close>

theorem installPluginFromGithub_counterexample:
  "latestRelease (releaseNet [''main.js'']) ''o/r'' =
     Inr \<lparr> assets = Some [\<lparr> asset_name = ''main.js'', browser_download_url = ''main.js'' \<rparr>] \<rparr>
   \<and> fst (installPluginFromGithub (releaseNet [''main.js'']) exampleHost ''o/r'' True
        (startWorld LocActive [])) = Inl (Error missingAssetsMessage)"
  by (simp add: installPluginFromGithub_def bind_def requiredAssets_eq findAsset_def
      releaseNet_def)

text \<open>
  Claim C6, amended. \<^verbatim>\<open>installPluginFromGithub\<close> fails with the error for missing assets
  precisely when the latest release is fetched and lacks \<^verbatim>\<open>main.js\<close> or lacks
  \<^verbatim>\<open>manifest.json\<close>: a release needs both assets, not one of them, to pass the check. When it
  fails so, the request for the release is all that has happened.
\<close>

theorem installPluginFromGithub_missing_assets_amended:
  "(fst (installPluginFromGithub net h fullName showNotice w) = Inl (Error missingAssetsMessage) \<longleftrightarrow>
     (\<exists>release as. latestRelease net fullName = Inr release \<and> assets release = Some as \<and>
        (''main.js'' \<notin> asset_name ` set as \<or> ''manifest.json'' \<notin> asset_name ` set as)))
   \<and> (fst (installPluginFromGithub net h fullName showNotice w) = Inl (Error missingAssetsMessage)
        \<longrightarrow> snd (installPluginFromGithub net h fullName showNotice w) =
            w\<lparr> events := events w @ [Req (LatestReleaseRequest fullName)] \<rparr>)"
  using install_missing_iff [of net h fullName showNotice w] install_missing_state
  by blast

theorem installPluginFromGithub_missing_assets_amended_witness:
  "fst (installPluginFromGithub (releaseNet [''manifest.json'', ''styles.css'']) exampleHost ''o/r''
      True (startWorld LocActive [])) = Inl (Error missingAssetsMessage)
   \<and> snd (installPluginFromGithub (releaseNet [''manifest.json'', ''styles.css'']) exampleHost
      ''o/r'' True (startWorld LocActive [])) =
     (startWorld LocActive []) \<lparr> events := [Req (LatestReleaseRequest ''o/r'')] \<rparr>"
proof -
  let ?net = "releaseNet [''manifest.json'', ''styles.css'']"
  let ?as = "[\<lparr> asset_name = ''manifest.json'', browser_download_url = ''manifest.json'' \<rparr>,
      \<lparr> asset_name = ''styles.css'', browser_download_url = ''styles.css'' \<rparr>]"
  have r: "latestRelease ?net ''o/r'' = Inr \<lparr> assets = Some ?as \<rparr>"
    by (simp add: releaseNet_def)
  have a: "assets \<lparr> assets = Some ?as \<rparr> = Some ?as" by simp
  have m: "''main.js'' \<notin> asset_name ` set ?as" by simp
  note T = installPluginFromGithub_missing_assets_amended [where net = ?net and h = exampleHost
      and fullName = "''o/r''" and showNotice = True and w = "startWorld LocActive []"]
  have f: "fst (installPluginFromGithub ?net exampleHost ''o/r'' True (startWorld LocActive [])) =
      Inl (Error missingAssetsMessage)"
    using T r a m by blast
  then have "snd (installPluginFromGithub ?net exampleHost ''o/r'' True (startWorld LocActive [])) =
      (startWorld LocActive []) \<lparr> events := events (startWorld LocActive []) @
        [Req (LatestReleaseRequest ''o/r'')] \<rparr>"
    using T by blast
  then show ?thesis using f by (simp add: startWorld_def)
qed


section \<open>Properties of the deployment to the extra vaults\<close>

lemma forEach_abort:
  "fst (forEach xs body w) = Inl e \<Longrightarrow> forEach (xs @ ys) body w = forEach xs body w"
proof (induction xs arbitrary: w)
  case Nil
  then show ?case by (simp add: ret_def)
next
  case (Cons x xs)
  show ?case
  proof (cases "body x w")
    case (Pair r w')
    show ?thesis
    proof (cases r)
      case (Inl e')
      then show ?thesis using Pair by (simp add: bind_def)
    next
      case (Inr u)
      then have "fst (forEach xs body w') = Inl e"
        using Cons.prems Pair by (simp add: bind_def)
      then have "forEach (xs @ ys) body w' = forEach xs body w'" by (rule Cons.IH)
      then show ?thesis using Pair Inr by (simp add: bind_def)
    qed
  qed
qed

lemma forEach_continue:
  "fst (forEach xs body w) = Inr u \<Longrightarrow>
     forEach (xs @ ys) body w = forEach ys body (snd (forEach xs body w))"
proof (induction xs arbitrary: w)
  case Nil
  then show ?case by (simp add: ret_def)
next
  case (Cons x xs)
  show ?case
  proof (cases "body x w")
    case (Pair r w')
    show ?thesis
    proof (cases r)
      case (Inl e')
      then show ?thesis using Cons.prems Pair by (simp add: bind_def)
    next
      case (Inr v)
      then have "fst (forEach xs body w') = Inr u"
        using Cons.prems Pair by (simp add: bind_def)
      then have "forEach (xs @ ys) body w' = forEach ys body (snd (forEach xs body w'))"
        by (rule Cons.IH)
      then show ?thesis using Pair Inr by (simp add: bind_def)
    qed
  qed
qed

text \<open>The discovery of the vaults only reads.\<close>

lemma discoverSub_world: "snd (discoverSub nfs parent acc sub w) = w"
  by (simp add: discoverSub_def Let_def bind_def hostRead_def split: sum.splits)

lemma foldIO_world:
  assumes "\<And>acc x w. snd (body acc x w) = w"
  shows "snd (foldIO xs acc body w) = w"
proof (induction xs arbitrary: acc w)
  case Nil
  then show ?case by (simp add: ret_def)
next
  case (Cons x xs)
  show ?case
  proof (cases "body acc x w")
    case (Pair r w')
    then have "w' = w" using assms [of acc x w] by simp
    then show ?thesis using Pair Cons.IH by (cases r) (simp_all add: bind_def)
  qed
qed

lemma discoverParent_world: "snd (discoverParent nfs acc parent w) = w"
proof (cases "existsSync nfs (files w) parent")
  case True
  show ?thesis
  proof (cases "readdirSync nfs (files w) parent")
    case (Inl m)
    then show ?thesis using True by (simp add: discoverParent_def bind_def hostRead_def)
  next
    case (Inr subs)
    have "snd (foldIO subs acc (discoverSub nfs parent) w) = w"
      by (rule foldIO_world) (rule discoverSub_world)
    then show ?thesis using True Inr by (simp add: discoverParent_def bind_def hostRead_def)
  qed
next
  case False
  then show ?thesis by (simp add: discoverParent_def)
qed

lemma collectTargetVaults_world: "snd (collectTargetVaults nfs w) = w"
proof -
  have "snd (foldIO ps acc (discoverParent nfs) w) = w" for ps acc
    by (rule foldIO_world) (rule discoverParent_world)
  then show ?thesis by (simp add: collectTargetVaults_def Let_def)
qed

lemma collectTargetVaults_selected:
  "installLocation (settings w) = LocSelected \<Longrightarrow>
     collectTargetVaults nfs w = (Inr (extraVaultPaths (settings w)), w)"
  by (simp add: collectTargetVaults_def Let_def)

lemma copyToExtraVaults_eq:
  assumes mode: "installLocation (settings w) = LocAll \<or> installLocation (settings w) = LocSelected"
    and nfs: "node h = Some nfs"
    and ts: "fst (collectTargetVaults nfs w) = Inr targets"
  shows "copyToExtraVaults h pid a b c w =
     (case forEach targets (writeToVault nfs pid a b c) w of
        (Inl e, w') \<Rightarrow>
          (Inr 0, w'\<lparr> events := events w' @ [ConsoleError ''Failed to copy to extra vaults:''] \<rparr>)
      | (Inr u, w') \<Rightarrow> (Inr (length targets), w'))"
proof -
  have c: "collectTargetVaults nfs w = (Inr targets, w)"
    using ts collectTargetVaults_world [of nfs w] by (cases "collectTargetVaults nfs w") simp
  show ?thesis
    using mode nfs c
    by (auto simp: copyToExtraVaults_def copyToExtraVaultsBody_def io_defs
        split: prod.splits sum.splits)
qed


text \<open>
  Claim C7, as stated, fails: with the two selected vaults \<^verbatim>\<open>/v1\<close> and \<^verbatim>\<open>/v2\<close>, on a file
  system that refuses the writes below \<^verbatim>\<open>/v1\<close> and would accept those below \<^verbatim>\<open>/v2\<close>, the
  failure of the first write to \<^verbatim>\<open>/v1\<close> ends the loop: no directory is made and no file is
  written for \<^verbatim>\<open>/v2\<close>.
\<close>

theorem copyToExtraVaults_counterexample:
  "copyToExtraVaults exampleHost ''p'' ''text'' ''{}'' None
      (startWorld LocSelected [''/v1'', ''/v2'']) =
     (Inr 0,
      (startWorld LocSelected [''/v1'', ''/v2''])
        \<lparr> events := [FsMkdir ''/v1/.obsidian/plugins/p'',
                     FsWrite ''/v1/.obsidian/plugins/p/main.js'',
                     ConsoleError ''Failed to copy to extra vaults:''] \<rparr>)
   \<and> writeFileSync v1ReadOnlyFs () ''/v2/.obsidian/plugins/p/main.js'' ''text'' = Inr ()
   \<and> events (snd (installPluginFromGithub (releaseNet [''main.js'', ''manifest.json''])
        exampleHost ''o/r'' False (startWorld LocSelected [''/v1'', ''/v2'']))) =
       [Req (LatestReleaseRequest ''o/r''), Req (DownloadRequest ''manifest.json''), SaveSettings,
        Req (DownloadRequest ''main.js''),
        FsMkdir ''/v1/.obsidian/plugins/p'', FsWrite ''/v1/.obsidian/plugins/p/main.js'',
        ConsoleError ''Failed to copy to extra vaults:'']"
proof -
  have a: "copyToExtraVaults exampleHost ''p'' ''text'' ''{}'' None
      (startWorld LocSelected [''/v1'', ''/v2'']) =
     (Inr 0,
      (startWorld LocSelected [''/v1'', ''/v2''])
        \<lparr> events := [FsMkdir ''/v1/.obsidian/plugins/p'',
                     FsWrite ''/v1/.obsidian/plugins/p/main.js'',
                     ConsoleError ''Failed to copy to extra vaults:''] \<rparr>)"
    by (simp add: copyToExtraVaults_def copyToExtraVaultsBody_def collectTargetVaults_def
        writeToVault_def io_defs example_defs Let_def)
  have b: "writeFileSync v1ReadOnlyFs () ''/v2/.obsidian/plugins/p/main.js'' ''text'' = Inr ()"
    by (simp add: v1ReadOnlyFs_def)
  have c: "events (snd (installPluginFromGithub (releaseNet [''main.js'', ''manifest.json''])
        exampleHost ''o/r'' False (startWorld LocSelected [''/v1'', ''/v2'']))) =
       [Req (LatestReleaseRequest ''o/r''), Req (DownloadRequest ''manifest.json''), SaveSettings,
        Req (DownloadRequest ''main.js''),
        FsMkdir ''/v1/.obsidian/plugins/p'', FsWrite ''/v1/.obsidian/plugins/p/main.js'',
        ConsoleError ''Failed to copy to extra vaults:'']"
    by (simp add: installPluginFromGithub_def requiredAssets_eq installAssets_def
        fetchManifest_def trackRepo_def property_defs findAsset_def
        copyToExtraVaults_def copyToExtraVaultsBody_def collectTargetVaults_def
        writeToVault_def io_defs example_defs Let_def)
  show ?thesis using a b c by simp
qed


text \<open>
  Claim C7, amended. During the multi-target installation a failure while writing to an extra
  target is caught and logged, never raised to the caller: the deployment to the extra vaults
  always returns. The failure ends the loop over the targets: when the writes to the first
  targets \<open>xs\<close> of the list \<open>xs @ ys\<close> fail, the outcome is that of the loop over \<open>xs\<close> alone,
  followed by the log entry, with the count \<open>0\<close>; the targets \<open>ys\<close> after the failing one are
  not attempted. When no write fails, every target is written and the count is the number of
  targets. With the location \<^verbatim>\<open>selected\<close> the targets are the extra vault paths of the
  settings.
\<close>

theorem copyToExtraVaults_amended:
  "(\<exists>n. fst (copyToExtraVaults h pid a b c w) = Inr n)
   \<and> ((installLocation (settings w) = LocAll \<or> installLocation (settings w) = LocSelected) \<and>
      node h = Some nfs \<and> fst (collectTargetVaults nfs w) = Inr (xs @ ys) \<and>
      fst (forEach xs (writeToVault nfs pid a b c) w) = Inl e \<longrightarrow>
        copyToExtraVaults h pid a b c w =
          (Inr 0,
           (snd (forEach xs (writeToVault nfs pid a b c) w))
             \<lparr> events := events (snd (forEach xs (writeToVault nfs pid a b c) w)) @
                 [ConsoleError ''Failed to copy to extra vaults:''] \<rparr>))
   \<and> ((installLocation (settings w) = LocAll \<or> installLocation (settings w) = LocSelected) \<and>
      node h = Some nfs \<and> fst (collectTargetVaults nfs w) = Inr ts \<and>
      fst (forEach ts (writeToVault nfs pid a b c) w) = Inr () \<longrightarrow>
        copyToExtraVaults h pid a b c w =
          (Inr (length ts), snd (forEach ts (writeToVault nfs pid a b c) w)))
   \<and> (installLocation (settings w) = LocSelected \<longrightarrow>
        collectTargetVaults nfs w = (Inr (extraVaultPaths (settings w)), w))"
proof -
  have A: "(\<exists>n. fst (copyToExtraVaults h pid a b c w) = Inr n)" by (rule copyToExtraVaults_returns)
  have B: "((installLocation (settings w) = LocAll \<or> installLocation (settings w) = LocSelected) \<and>
      node h = Some nfs \<and> fst (collectTargetVaults nfs w) = Inr (xs @ ys) \<and>
      fst (forEach xs (writeToVault nfs pid a b c) w) = Inl e \<longrightarrow>
        copyToExtraVaults h pid a b c w =
          (Inr 0,
           (snd (forEach xs (writeToVault nfs pid a b c) w))
             \<lparr> events := events (snd (forEach xs (writeToVault nfs pid a b c) w)) @
                 [ConsoleError ''Failed to copy to extra vaults:''] \<rparr>))"
  proof (intro impI, elim conjE)
    assume mode: "(installLocation (settings w) = LocAll \<or> installLocation (settings w) = LocSelected)"
      and nfs: "node h = Some nfs"
      and ts: "fst (collectTargetVaults nfs w) = Inr (xs @ ys)"
      and fail: "fst (forEach xs (writeToVault nfs pid a b c) w) = Inl e"
    have ab: "forEach (xs @ ys) (writeToVault nfs pid a b c) w = forEach xs (writeToVault nfs pid a b c) w"
      using fail by (rule forEach_abort)
    show "copyToExtraVaults h pid a b c w =
          (Inr 0,
           (snd (forEach xs (writeToVault nfs pid a b c) w))
             \<lparr> events := events (snd (forEach xs (writeToVault nfs pid a b c) w)) @
                 [ConsoleError ''Failed to copy to extra vaults:''] \<rparr>)"
      unfolding copyToExtraVaults_eq [OF mode nfs ts] ab
      using fail by (cases "forEach xs (writeToVault nfs pid a b c) w") simp
  qed
  have C: "((installLocation (settings w) = LocAll \<or> installLocation (settings w) = LocSelected) \<and>
      node h = Some nfs \<and> fst (collectTargetVaults nfs w) = Inr ts \<and>
      fst (forEach ts (writeToVault nfs pid a b c) w) = Inr () \<longrightarrow>
        copyToExtraVaults h pid a b c w =
          (Inr (length ts), snd (forEach ts (writeToVault nfs pid a b c) w)))"
  proof (intro impI, elim conjE)
    assume mode: "(installLocation (settings w) = LocAll \<or> installLocation (settings w) = LocSelected)"
      and nfs: "node h = Some nfs"
      and ts: "fst (collectTargetVaults nfs w) = Inr ts"
      and ok: "fst (forEach ts (writeToVault nfs pid a b c) w) = Inr ()"
    show "copyToExtraVaults h pid a b c w =
          (Inr (length ts), snd (forEach ts (writeToVault nfs pid a b c) w))"
      unfolding copyToExtraVaults_eq [OF mode nfs ts]
      using ok by (cases "forEach ts (writeToVault nfs pid a b c) w") simp
  qed
  have D: "(installLocation (settings w) = LocSelected \<longrightarrow>
        collectTargetVaults nfs w = (Inr (extraVaultPaths (settings w)), w))" using collectTargetVaults_selected by blast
  show ?thesis by (intro conjI) (fact A, fact B, fact C, fact D)
qed

theorem copyToExtraVaults_amended_witness:
  "copyToExtraVaults exampleHost ''p'' ''text'' ''{}'' None
      (startWorld LocSelected [''/v1'', ''/v2'']) =
     (Inr 0,
      (startWorld LocSelected [''/v1'', ''/v2''])
        \<lparr> events := [FsMkdir ''/v1/.obsidian/plugins/p'',
                     FsWrite ''/v1/.obsidian/plugins/p/main.js'',
                     ConsoleError ''Failed to copy to extra vaults:''] \<rparr>)
   \<and> copyToExtraVaults exampleHost ''p'' ''text'' ''{}'' None
      (startWorld LocSelected [''/v2'', ''/v3'']) =
     (Inr 2,
      (startWorld LocSelected [''/v2'', ''/v3''])
        \<lparr> events := [FsMkdir ''/v2/.obsidian/plugins/p'',
                     FsWrite ''/v2/.obsidian/plugins/p/main.js'',
                     FsWrite ''/v2/.obsidian/plugins/p/manifest.json'',
                     FsMkdir ''/v3/.obsidian/plugins/p'',
                     FsWrite ''/v3/.obsidian/plugins/p/main.js'',
                     FsWrite ''/v3/.obsidian/plugins/p/manifest.json''] \<rparr>)"
proof -
  let ?w = "startWorld LocSelected [''/v1'', ''/v2'']"
  let ?w' = "startWorld LocSelected [''/v2'', ''/v3'']"
  let ?body = "writeToVault v1ReadOnlyFs ''p'' ''text'' ''{}'' None"
  have mode: "installLocation (settings ?w) = LocAll \<or> installLocation (settings ?w) = LocSelected"
    by (simp add: startWorld_def)
  have mode': "installLocation (settings ?w') = LocAll \<or>
      installLocation (settings ?w') = LocSelected"
    by (simp add: startWorld_def)
  have nfs: "node exampleHost = Some v1ReadOnlyFs" by (simp add: exampleHost_def)
  have ts: "fst (collectTargetVaults v1ReadOnlyFs ?w) = Inr ([''/v1''] @ [''/v2''])"
    by (simp add: collectTargetVaults_def startWorld_def Let_def)
  have ts': "fst (collectTargetVaults v1ReadOnlyFs ?w') = Inr [''/v2'', ''/v3'']"
    by (simp add: collectTargetVaults_def startWorld_def Let_def)
  have run: "forEach [''/v1''] ?body ?w =
      (Inl (HostError ''EACCES: permission denied''),
       ?w \<lparr> events := [FsMkdir ''/v1/.obsidian/plugins/p'',
                     FsWrite ''/v1/.obsidian/plugins/p/main.js''] \<rparr>)"
    by (simp add: writeToVault_def io_defs example_defs Let_def)
  have run': "forEach [''/v2'', ''/v3''] ?body ?w' =
      (Inr (),
       ?w' \<lparr> events := [FsMkdir ''/v2/.obsidian/plugins/p'',
                     FsWrite ''/v2/.obsidian/plugins/p/main.js'',
                     FsWrite ''/v2/.obsidian/plugins/p/manifest.json'',
                     FsMkdir ''/v3/.obsidian/plugins/p'',
                     FsWrite ''/v3/.obsidian/plugins/p/main.js'',
                     FsWrite ''/v3/.obsidian/plugins/p/manifest.json''] \<rparr>)"
    by (simp add: writeToVault_def io_defs example_defs Let_def)
  have fail: "fst (forEach [''/v1''] ?body ?w) = Inl (HostError ''EACCES: permission denied'')"
    by (simp only: run fst_conv)
  have ok: "fst (forEach [''/v2'', ''/v3''] ?body ?w') = Inr ()"
    by (simp only: run' fst_conv)
  note T = copyToExtraVaults_amended [where h = exampleHost and pid = "''p''" and a = "''text''"
      and b = "''{}''" and c = None and nfs = v1ReadOnlyFs]
  have 1: "copyToExtraVaults exampleHost ''p'' ''text'' ''{}'' None ?w =
      (Inr 0,
       (snd (forEach [''/v1''] ?body ?w))
         \<lparr> events := events (snd (forEach [''/v1''] ?body ?w)) @
             [ConsoleError ''Failed to copy to extra vaults:''] \<rparr>)"
    using T [where w = ?w and xs = "[''/v1'']" and ys = "[''/v2'']" and ts = "[]"
        and e = "HostError ''EACCES: permission denied''"] mode nfs ts fail
    by blast
  have 2: "copyToExtraVaults exampleHost ''p'' ''text'' ''{}'' None ?w' =
      (Inr (length [''/v2'', ''/v3'']), snd (forEach [''/v2'', ''/v3''] ?body ?w'))"
    using T [where w = ?w' and xs = "[]" and ys = "[]" and ts = "[''/v2'', ''/v3'']"
        and e = "HostError ''EACCES: permission denied''"] mode' nfs ts' ok
    by blast
  show ?thesis by (simp only: 1 2 run run') (simp add: startWorld_def)
qed


section \<open>Properties of the search tier of the resolver\<close>



lemma searchLoop_hit:
  assumes "\<exists>q\<in>set qs. queryVerified net pid q \<noteq> None"
  shows "det_repo (fst (searchLoop net pid qs rl)) =
      queryVerified net pid (hd (filter (\<lambda>q. queryVerified net pid q \<noteq> None) qs))
    \<and> det_reason (fst (searchLoop net pid qs rl)) = None"
  using assms
proof (induction qs arbitrary: rl)
  case Nil
  then show ?case by simp
next
  case (Cons q qs)
  show ?case
  proof (cases "queryVerified net pid q")
    case None
    then have rest: "\<exists>q\<in>set qs. queryVerified net pid q \<noteq> None" using Cons.prems by auto
    show ?thesis
    proof (cases "searchPlugins net q ''updated''")
      case (Inl e)
      then show ?thesis using Cons.IH [OF rest] None by (simp add: Let_def)
    next
      case (Inr repos)
      then have "fst (firstMatching net pid (map full_name (take 12 repos))) = None"
        using None by (simp add: queryVerified_def)
      then show ?thesis using Cons.IH [OF rest] None Inr by (simp add: Let_def)
    qed
  next
    case (Some r)
    then obtain repos where s: "searchPlugins net q ''updated'' = Inr repos"
      and f: "fst (firstMatching net pid (map full_name (take 12 repos))) = Some r"
      by (auto simp: queryVerified_def split: sum.splits)
    show ?thesis using s f Some by (simp add: Let_def)
  qed
qed

lemma searchPlugins_403:
  assumes "searchRepositories net q s = Inl e" "err_status e = Some 403"
  shows "searchPlugins net q s = Inl (Error ''Request failed, status 403 (Rate Limit Exceeded)'')"
  using assms by (simp add: searchPlugins_def)

lemma message_403: "includes_str ''Request failed, status 403 (Rate Limit Exceeded)'' ''403''"
  by simp














section \<open>Properties of the archive matcher\<close>

lemma filterE_total:
  assumes "\<forall>x\<in>set xs. \<exists>b. f x = Inr b"
  shows "filterE f xs = Inr (filter (\<lambda>x. f x = Inr True) xs)"
  using assms
proof (induction xs)
  case Nil
  then show ?case by simp
next
  case (Cons x xs)
  then obtain b where b: "f x = Inr b" by auto
  have "filterE f xs = Inr (filter (\<lambda>x. f x = Inr True) xs)"
    using Cons by simp
  then show ?case using b by simp
qed

lemma archiveFilter_present:
  assumes "ocp_name p = Some name" "ocp_author p = Some author"
    "ocp_description p = Some description"
  shows "archiveFilter query p =
     Inr (searchLowerOf query = [] \<or> isPluginSearch (searchLowerOf query) \<or>
          includes_str (toLowerCase name) (searchLowerOf query) \<or>
          includes_str (toLowerCase name) (searchSingularOf (searchLowerOf query)) \<or>
          includes_str (toLowerCase author) (searchLowerOf query) \<or>
          includes_str (toLowerCase description) (searchLowerOf query) \<or>
          includes_str (toLowerCase description) (searchSingularOf (searchLowerOf query)) \<or>
          includes_str (toLowerCase (ocp_id p)) (searchLowerOf query))"
  using assms by (simp add: archiveFilter_def lowerOf_def Let_def)

lemma archiveFilter_implies_spec:
  assumes "ocp_name p = Some name" "ocp_author p = Some author"
    "ocp_description p = Some description" "archiveFilter query p = Inr True"
  shows "spec_archiveMatches query name author description (ocp_id p)"
  using assms(4) unfolding archiveFilter_present [OF assms(1-3)] spec_archiveMatches_def Let_def
  by auto

lemmas archive_eval =
  archiveFilter_def lowerOf_def searchLowerOf_def searchSingularOf_def isPluginSearch_def

lemma archiveFilter_example_author_singular: "archiveFilter ''cats''
       \<lparr> ocp_id = ''x'', ocp_repo = ''o/r'', ocp_name = Some ''n'', ocp_author = Some ''cat'',
         ocp_description = Some ''d'' \<rparr> = Inr False"
  by (simp add: archive_eval string_eval)

lemma spec_archiveMatches_example_author_singular: "spec_archiveMatches ''cats'' ''n'' ''cat'' ''d'' ''x''"
  by (simp add: spec_archiveMatches_def archive_eval string_eval)


text \<open>
  Claim C9, as stated, fails: for the query \<^verbatim>\<open>cats\<close> (singular form \<^verbatim>\<open>cat\<close>) and an entry
  whose author is \<^verbatim>\<open>cat\<close>, the singular form is a substring of the author, so the matcher of
  the claim accepts the entry, but the filter of the source tests the singular form against
  the name and the description only and rejects it.
\<close>

theorem archive_matcher_counterexample:
  "archiveFilter ''cats''
     \<lparr> ocp_id = ''x'', ocp_repo = ''o/r'', ocp_name = Some ''n'', ocp_author = Some ''cat'',
       ocp_description = Some ''d'' \<rparr> = Inr False
   \<and> spec_archiveMatches ''cats'' ''n'' ''cat'' ''d'' ''x''"
  using archiveFilter_example_author_singular spec_archiveMatches_example_author_singular
  by simp

text \<open>
  Claim C9, amended. For every query and every archive entry that has a name, an author and a
  description, the filter keeps the entry exactly when the trimmed lowercase query is empty,
  is \<^verbatim>\<open>plugin\<close> or \<^verbatim>\<open>plugins\<close>, is a substring of the lowercased name, author, description or
  id, or its singular form (the last character dropped when the query is longer than 3 and
  ends in \<^verbatim>\<open>s\<close>) is a substring of the lowercased name or description. The singular form is
  not tried against the author and the id. Every entry the filter keeps is one the matcher of
  the claim accepts, and the search returns the kept entries in the order of the archive.
\<close>

theorem archive_matcher_amended:
  "(ocp_name p = Some name \<and> ocp_author p = Some author \<and> ocp_description p = Some description \<longrightarrow>
      (archiveFilter query p = Inr True \<or> archiveFilter query p = Inr False)
      \<and> (archiveFilter query p = Inr True \<longleftrightarrow>
           (searchLowerOf query = [] \<or> searchLowerOf query = ''plugin'' \<or>
            searchLowerOf query = ''plugins'' \<or>
            (\<exists>pre post. toLowerCase name = pre @ searchLowerOf query @ post) \<or>
            (\<exists>pre post. toLowerCase name = pre @ searchSingularOf (searchLowerOf query) @ post) \<or>
            (\<exists>pre post. toLowerCase author = pre @ searchLowerOf query @ post) \<or>
            (\<exists>pre post. toLowerCase description = pre @ searchLowerOf query @ post) \<or>
            (\<exists>pre post. toLowerCase description =
                 pre @ searchSingularOf (searchLowerOf query) @ post) \<or>
            (\<exists>pre post. toLowerCase (ocp_id p) = pre @ searchLowerOf query @ post)))
      \<and> (archiveFilter query p = Inr True \<longrightarrow>
           spec_archiveMatches query name author description (ocp_id p)))
   \<and> searchLowerOf query = trim (toLowerCase query)
   \<and> searchSingularOf l =
       (if 3 < length l \<and> l \<noteq> [] \<and> last l = CHR ''s'' then butlast l else l)
   \<and> ((\<forall>e\<in>set plugins. ocp_name e \<noteq> None \<and> ocp_author e \<noteq> None \<and> ocp_description e \<noteq> None) \<longrightarrow>
        CommunityArchiveService_search (Inr plugins) query =
          Inr (map archiveRepo (filter (\<lambda>e. archiveFilter query e = Inr True) plugins)))"
proof -
  have a: "ocp_name p = Some name \<and> ocp_author p = Some author \<and>
      ocp_description p = Some description \<longrightarrow>
      (archiveFilter query p = Inr True \<or> archiveFilter query p = Inr False)
      \<and> (archiveFilter query p = Inr True \<longleftrightarrow>
           (searchLowerOf query = [] \<or> searchLowerOf query = ''plugin'' \<or>
            searchLowerOf query = ''plugins'' \<or>
            (\<exists>pre post. toLowerCase name = pre @ searchLowerOf query @ post) \<or>
            (\<exists>pre post. toLowerCase name = pre @ searchSingularOf (searchLowerOf query) @ post) \<or>
            (\<exists>pre post. toLowerCase author = pre @ searchLowerOf query @ post) \<or>
            (\<exists>pre post. toLowerCase description = pre @ searchLowerOf query @ post) \<or>
            (\<exists>pre post. toLowerCase description =
                 pre @ searchSingularOf (searchLowerOf query) @ post) \<or>
            (\<exists>pre post. toLowerCase (ocp_id p) = pre @ searchLowerOf query @ post)))
      \<and> (archiveFilter query p = Inr True \<longrightarrow>
           spec_archiveMatches query name author description (ocp_id p))"
  proof (intro impI)
    assume h: "ocp_name p = Some name \<and> ocp_author p = Some author \<and>
      ocp_description p = Some description"
    then have n: "ocp_name p = Some name" and au: "ocp_author p = Some author"
      and d: "ocp_description p = Some description" by auto
    note eq = archiveFilter_present [OF n au d, of query]
    have 1: "archiveFilter query p = Inr True \<or> archiveFilter query p = Inr False"
      unfolding eq by auto
    have 2: "archiveFilter query p = Inr True \<longleftrightarrow>
           (searchLowerOf query = [] \<or> searchLowerOf query = ''plugin'' \<or>
            searchLowerOf query = ''plugins'' \<or>
            (\<exists>pre post. toLowerCase name = pre @ searchLowerOf query @ post) \<or>
            (\<exists>pre post. toLowerCase name = pre @ searchSingularOf (searchLowerOf query) @ post) \<or>
            (\<exists>pre post. toLowerCase author = pre @ searchLowerOf query @ post) \<or>
            (\<exists>pre post. toLowerCase description = pre @ searchLowerOf query @ post) \<or>
            (\<exists>pre post. toLowerCase description =
                 pre @ searchSingularOf (searchLowerOf query) @ post) \<or>
            (\<exists>pre post. toLowerCase (ocp_id p) = pre @ searchLowerOf query @ post))"
      unfolding eq includes_str_iff isPluginSearch_def by simp
    have 3: "archiveFilter query p = Inr True \<longrightarrow>
           spec_archiveMatches query name author description (ocp_id p)"
      using archiveFilter_implies_spec [OF n au d] by blast
    show "(archiveFilter query p = Inr True \<or> archiveFilter query p = Inr False)
      \<and> (archiveFilter query p = Inr True \<longleftrightarrow>
           (searchLowerOf query = [] \<or> searchLowerOf query = ''plugin'' \<or>
            searchLowerOf query = ''plugins'' \<or>
            (\<exists>pre post. toLowerCase name = pre @ searchLowerOf query @ post) \<or>
            (\<exists>pre post. toLowerCase name = pre @ searchSingularOf (searchLowerOf query) @ post) \<or>
            (\<exists>pre post. toLowerCase author = pre @ searchLowerOf query @ post) \<or>
            (\<exists>pre post. toLowerCase description = pre @ searchLowerOf query @ post) \<or>
            (\<exists>pre post. toLowerCase description =
                 pre @ searchSingularOf (searchLowerOf query) @ post) \<or>
            (\<exists>pre post. toLowerCase (ocp_id p) = pre @ searchLowerOf query @ post)))
      \<and> (archiveFilter query p = Inr True \<longrightarrow>
           spec_archiveMatches query name author description (ocp_id p))"
      using 1 2 3 by blast
  qed
  have b: "searchLowerOf query = trim (toLowerCase query)"
    by (simp add: searchLowerOf_def)
  have c: "searchSingularOf l =
       (if 3 < length l \<and> l \<noteq> [] \<and> last l = CHR ''s'' then butlast l else l)"
    by (simp add: searchSingularOf_def endsWithChar_def)
  have d: "(\<forall>e\<in>set plugins. ocp_name e \<noteq> None \<and> ocp_author e \<noteq> None \<and> ocp_description e \<noteq> None) \<longrightarrow>
        CommunityArchiveService_search (Inr plugins) query =
          Inr (map archiveRepo (filter (\<lambda>e. archiveFilter query e = Inr True) plugins))"
  proof
    assume wf: "\<forall>e\<in>set plugins. ocp_name e \<noteq> None \<and> ocp_author e \<noteq> None \<and> ocp_description e \<noteq> None"
    have "\<forall>e\<in>set plugins. \<exists>b. archiveFilter query e = Inr b"
    proof
      fix e assume "e \<in> set plugins"
      then obtain n au d where "ocp_name e = Some n" "ocp_author e = Some au"
        "ocp_description e = Some d" using wf by auto
      then show "\<exists>b. archiveFilter query e = Inr b"
        using archiveFilter_present by blast
    qed
    then show "CommunityArchiveService_search (Inr plugins) query =
          Inr (map archiveRepo (filter (\<lambda>e. archiveFilter query e = Inr True) plugins))"
      by (simp add: CommunityArchiveService_search_def filterE_total)
  qed
  show ?thesis using a b c d by blast
qed

theorem archive_matcher_amended_witness:
  "archiveFilter '' Calendars ''
     \<lparr> ocp_id = ''calendar'', ocp_repo = ''liamcain/obsidian-calendar-plugin'',
       ocp_name = Some ''Calendar'', ocp_author = Some ''Liam Cain'',
       ocp_description = Some ''Simple calendar widget'' \<rparr> = Inr True
   \<and> CommunityArchiveService_search
       (Inr [\<lparr> ocp_id = ''calendar'', ocp_repo = ''liamcain/obsidian-calendar-plugin'',
               ocp_name = Some ''Calendar'', ocp_author = Some ''Liam Cain'',
               ocp_description = Some ''Simple calendar widget'' \<rparr>]) '' Calendars '' =
     Inr [archiveRepo \<lparr> ocp_id = ''calendar'', ocp_repo = ''liamcain/obsidian-calendar-plugin'',
               ocp_name = Some ''Calendar'', ocp_author = Some ''Liam Cain'',
               ocp_description = Some ''Simple calendar widget'' \<rparr>]"
proof -
  let ?e = "\<lparr> ocp_id = ''calendar'', ocp_repo = ''liamcain/obsidian-calendar-plugin'',
       ocp_name = Some ''Calendar'', ocp_author = Some ''Liam Cain'',
       ocp_description = Some ''Simple calendar widget'' \<rparr>"
  have h: "ocp_name ?e = Some ''Calendar'' \<and> ocp_author ?e = Some ''Liam Cain'' \<and>
      ocp_description ?e = Some ''Simple calendar widget''" by simp
  have wf: "\<forall>e\<in>set [?e]. ocp_name e \<noteq> None \<and> ocp_author e \<noteq> None \<and> ocp_description e \<noteq> None"
    by simp
  have s: "searchSingularOf (searchLowerOf '' Calendars '') = ''calendar''"
    by (simp add: archive_eval string_eval)
  have n: "toLowerCase ''Calendar'' = [] @ ''calendar'' @ []"
    by (simp add: string_eval)
  have ex: "\<exists>pre post. toLowerCase ''Calendar'' =
      pre @ searchSingularOf (searchLowerOf '' Calendars '') @ post"
    unfolding s using n by blast
  have m: "archiveFilter '' Calendars '' ?e = Inr True"
    using archive_matcher_amended [where p = ?e and name = "''Calendar''"
        and author = "''Liam Cain''" and description = "''Simple calendar widget''"
        and query = "'' Calendars ''" and l = "[]" and plugins = "[]"] h ex
    by blast
  have "CommunityArchiveService_search (Inr [?e]) '' Calendars '' =
      Inr (map archiveRepo (filter (\<lambda>e. archiveFilter '' Calendars '' e = Inr True) [?e]))"
    using archive_matcher_amended [where plugins = "[?e]" and query = "'' Calendars ''"
        and p = ?e and name = "[]" and author = "[]" and description = "[]" and l = "[]"] wf
    by blast
  then show ?thesis using m by simp
qed

section \<open>Properties of the forum search\<close>

lemma fr_id_forumResult: "fr_id (forumResult i) = item_id i"
  by (simp add: forumResult_def)

lemma item_id_postTopic: "item_id (postTopic p) = topic_id p"
  by (simp add: postTopic_def)

lemma forum_result_of_data:
  assumes "requestUrl (forumUrl enc query) = Inr (Some data)"
  shows "ForumService_search enc requestUrl query =
     map forumResult (uniqueBy item_id {} (topicsOf data @ map postTopic (postsOf data)))"
  using assms by (simp add: ForumService_search_def Let_def)

lemma forum_ids:
  "map fr_id (map forumResult (uniqueBy item_id {} items)) = map item_id (uniqueBy item_id {} items)"
  by (simp add: fr_id_forumResult comp_def)

lemma forum_find:
  "find (\<lambda>r. fr_id r = k) (map forumResult (uniqueBy item_id {} items)) =
     map_option forumResult (find (\<lambda>i. item_id i = k) items)"
  by (simp add: find_map_key fr_id_forumResult uniqueBy_find)

text \<open>The keys of the elements kept are the keys in the order of their first occurrences.\<close>

lemma remdups_snoc: "remdups (xs @ [x]) = filter (\<lambda>y. y \<noteq> x) (remdups xs) @ [x]"
  by (induction xs) auto

lemma first_occurrences_Cons:
  "rev (remdups (rev (x # xs))) = x # filter (\<lambda>y. y \<noteq> x) (rev (remdups (rev xs)))"
  by (simp add: remdups_snoc rev_filter)

lemma uniqueBy_keys_order:
  "map key (uniqueBy key seen xs) =
     filter (\<lambda>k. k \<notin> seen) (rev (remdups (rev (map key xs))))"
proof (induction xs arbitrary: seen)
  case Nil
  then show ?case by simp
next
  case (Cons x xs)
  let ?F = "rev (remdups (rev (map key xs)))"
  have c: "rev (remdups (rev (map key (x # xs)))) = key x # filter (\<lambda>y. y \<noteq> key x) ?F"
    using first_occurrences_Cons [of "key x" "map key xs"] by simp
  show ?case
  proof (cases "key x \<in> seen")
    case True
    have "filter (\<lambda>k. k \<notin> seen) (filter (\<lambda>y. y \<noteq> key x) ?F) = filter (\<lambda>k. k \<notin> seen) ?F"
      using True by (auto intro: filter_cong)
    then show ?thesis
      unfolding c using True Cons.IH [of seen] by simp
  next
    case False
    have "filter (\<lambda>k. k \<notin> seen) (filter (\<lambda>y. y \<noteq> key x) ?F) =
        filter (\<lambda>k. k \<notin> insert (key x) seen) ?F"
      by (auto intro: filter_cong)
    then show ?thesis
      unfolding c using False Cons.IH [of "insert (key x) seen"] by simp
  qed
qed

lemma forum_ids_order:
  "map fr_id (map forumResult (uniqueBy item_id {} (ts @ map postTopic ps))) =
     rev (remdups (rev (map item_id ts @ map topic_id ps)))"
  unfolding forum_ids uniqueBy_keys_order
  by (simp add: comp_def item_id_postTopic)

lemma forum_find_topic:
  assumes "find (\<lambda>t. item_id t = k) ts = Some t"
  shows "find (\<lambda>r. fr_id r = k) (map forumResult (uniqueBy item_id {} (ts @ map postTopic ps))) =
     Some (forumResult t)"
  unfolding forum_find using assms by (simp add: find_append_case)

lemma forum_find_post:
  assumes "find (\<lambda>t. item_id t = k) ts = None" "find (\<lambda>p. topic_id p = k) ps = Some p"
  shows "find (\<lambda>r. fr_id r = k) (map forumResult (uniqueBy item_id {} (ts @ map postTopic ps))) =
     Some (forumResult (postTopic p))"
  unfolding forum_find using assms by (simp add: find_append_case find_map_key item_id_postTopic)

lemma forum_find_none:
  assumes "find (\<lambda>t. item_id t = k) ts = None" "find (\<lambda>p. topic_id p = k) ps = None"
  shows "find (\<lambda>r. fr_id r = k) (map forumResult (uniqueBy item_id {} (ts @ map postTopic ps))) =
     None"
  unfolding forum_find using assms by (simp add: find_append_case find_map_key item_id_postTopic)

lemma forum_data_lists:
  assumes "topics data = Some ts \<or> topics data = None \<and> ts = []"
    and "posts data = Some ps \<or> posts data = None \<and> ps = []"
  shows "topicsOf data = ts" "postsOf data = ps"
  using assms by (auto simp: topicsOf_def postsOf_def)

text \<open>
  Claim C10. When the request of the forum search throws, or its response cannot be read,
  \<^verbatim>\<open>ForumService.search\<close> returns the empty list, the same value as for a response without
  topics and posts, so the caller cannot tell an outage from a query without results. The
  request is the search for the trimmed query in category 9. On success, with the topics \<open>ts\<close> and the posts \<open>ps\<close> of the response (each the empty list when
  the response has none), the results have pairwise distinct topic ids; the ids are those of
  the topics followed by those of the posts, each at its first occurrence; the result for the
  id of a topic has the fields of the first topic with that id, also when a post has the same
  id; and the result for any other id has the fields of the first post with that id, no
  tags, and the counts of posts and views 0.
\<close>

theorem ForumService_search_behaviour:
  "(requestUrl (forumUrl enc query) = Inl e \<longrightarrow> ForumService_search enc requestUrl query = [])
   \<and> (requestUrl (forumUrl enc query) = Inr None \<longrightarrow>
        ForumService_search enc requestUrl query = [])
   \<and> (requestUrl (forumUrl enc query) = Inr (Some data) \<and>
      (topics data = Some ts \<or> topics data = None \<and> ts = []) \<and>
      (posts data = Some ps \<or> posts data = None \<and> ps = []) \<longrightarrow>
        (ts = [] \<and> ps = [] \<longrightarrow> ForumService_search enc requestUrl query = [])
        \<and> distinct (map fr_id (ForumService_search enc requestUrl query))
        \<and> map fr_id (ForumService_search enc requestUrl query) =
            rev (remdups (rev (map item_id ts @ map topic_id ps)))
        \<and> (\<forall>t. find (\<lambda>t. item_id t = k) ts = Some t \<longrightarrow>
              find (\<lambda>r. fr_id r = k) (ForumService_search enc requestUrl query) =
                Some \<lparr> fr_title = item_title t, fr_slug = item_slug t, fr_id = item_id t,
                       fr_posts_count = item_posts_count t, fr_like_count = item_like_count t,
                       fr_views = item_views t,
                       fr_tags = (case item_tags t of None \<Rightarrow> [] | Some tags \<Rightarrow> tags) \<rparr>)
        \<and> (\<forall>p. find (\<lambda>t. item_id t = k) ts = None \<and> find (\<lambda>p. topic_id p = k) ps = Some p \<longrightarrow>
              find (\<lambda>r. fr_id r = k) (ForumService_search enc requestUrl query) =
                Some \<lparr> fr_title = topic_title p, fr_slug = topic_slug p, fr_id = topic_id p,
                       fr_posts_count = Some 0, fr_like_count = post_like_count p,
                       fr_views = Some 0, fr_tags = [] \<rparr>)
        \<and> (find (\<lambda>t. item_id t = k) ts = None \<and> find (\<lambda>p. topic_id p = k) ps = None \<longrightarrow>
              find (\<lambda>r. fr_id r = k) (ForumService_search enc requestUrl query) = None))
   \<and> forumUrl enc query =
       ''https://forum.obsidian.md/search.json?q='' @
         enc (if trim query = [] then ''category:9'' else trim query @ '' category:9'')"
proof -
  let ?res = "ForumService_search enc requestUrl query"
  have 1: "requestUrl (forumUrl enc query) = Inl e \<longrightarrow> ?res = []"
    by (simp add: ForumService_search_def)
  have 2: "requestUrl (forumUrl enc query) = Inr None \<longrightarrow> ?res = []"
    by (simp add: ForumService_search_def)
  have 3: "requestUrl (forumUrl enc query) = Inr (Some data) \<and>
      (topics data = Some ts \<or> topics data = None \<and> ts = []) \<and>
      (posts data = Some ps \<or> posts data = None \<and> ps = []) \<longrightarrow>
        (ts = [] \<and> ps = [] \<longrightarrow> ?res = [])
        \<and> distinct (map fr_id ?res)
        \<and> map fr_id ?res = rev (remdups (rev (map item_id ts @ map topic_id ps)))
        \<and> (\<forall>t. find (\<lambda>t. item_id t = k) ts = Some t \<longrightarrow>
              find (\<lambda>r. fr_id r = k) ?res =
                Some \<lparr> fr_title = item_title t, fr_slug = item_slug t, fr_id = item_id t,
                       fr_posts_count = item_posts_count t, fr_like_count = item_like_count t,
                       fr_views = item_views t,
                       fr_tags = (case item_tags t of None \<Rightarrow> [] | Some tags \<Rightarrow> tags) \<rparr>)
        \<and> (\<forall>p. find (\<lambda>t. item_id t = k) ts = None \<and> find (\<lambda>p. topic_id p = k) ps = Some p \<longrightarrow>
              find (\<lambda>r. fr_id r = k) ?res =
                Some \<lparr> fr_title = topic_title p, fr_slug = topic_slug p, fr_id = topic_id p,
                       fr_posts_count = Some 0, fr_like_count = post_like_count p,
                       fr_views = Some 0, fr_tags = [] \<rparr>)
        \<and> (find (\<lambda>t. item_id t = k) ts = None \<and> find (\<lambda>p. topic_id p = k) ps = None \<longrightarrow>
              find (\<lambda>r. fr_id r = k) ?res = None)"
  proof
    assume a: "requestUrl (forumUrl enc query) = Inr (Some data) \<and>
      (topics data = Some ts \<or> topics data = None \<and> ts = []) \<and>
      (posts data = Some ps \<or> posts data = None \<and> ps = [])"
    then have ok: "requestUrl (forumUrl enc query) = Inr (Some data)" by simp
    have l: "topicsOf data = ts" "postsOf data = ps"
      using forum_data_lists [of data ts ps] a by simp_all
    have eq: "?res = map forumResult (uniqueBy item_id {} (ts @ map postTopic ps))"
      using forum_result_of_data [of requestUrl enc query data, OF ok] by (simp only: l)
    have e: "ts = [] \<and> ps = [] \<longrightarrow> ?res = []"
      unfolding eq by simp
    have d: "distinct (map fr_id ?res)"
      unfolding eq forum_ids by (rule uniqueBy_distinct)
    have o: "map fr_id ?res = rev (remdups (rev (map item_id ts @ map topic_id ps)))"
      unfolding eq by (rule forum_ids_order)
    have t: "\<forall>t. find (\<lambda>t. item_id t = k) ts = Some t \<longrightarrow>
              find (\<lambda>r. fr_id r = k) ?res =
                Some \<lparr> fr_title = item_title t, fr_slug = item_slug t, fr_id = item_id t,
                       fr_posts_count = item_posts_count t, fr_like_count = item_like_count t,
                       fr_views = item_views t,
                       fr_tags = (case item_tags t of None \<Rightarrow> [] | Some tags \<Rightarrow> tags) \<rparr>"
      unfolding eq using forum_find_topic [of k ts _ ps] by (simp add: forumResult_def)
    have p: "\<forall>p. find (\<lambda>t. item_id t = k) ts = None \<and> find (\<lambda>p. topic_id p = k) ps = Some p \<longrightarrow>
              find (\<lambda>r. fr_id r = k) ?res =
                Some \<lparr> fr_title = topic_title p, fr_slug = topic_slug p, fr_id = topic_id p,
                       fr_posts_count = Some 0, fr_like_count = post_like_count p,
                       fr_views = Some 0, fr_tags = [] \<rparr>"
      unfolding eq using forum_find_post [of k ts ps] by (simp add: forumResult_def postTopic_def)
    have n: "find (\<lambda>t. item_id t = k) ts = None \<and> find (\<lambda>p. topic_id p = k) ps = None \<longrightarrow>
              find (\<lambda>r. fr_id r = k) ?res = None"
      unfolding eq using forum_find_none [of k ts ps] by blast
    show "(ts = [] \<and> ps = [] \<longrightarrow> ?res = [])
        \<and> distinct (map fr_id ?res)
        \<and> map fr_id ?res = rev (remdups (rev (map item_id ts @ map topic_id ps)))
        \<and> (\<forall>t. find (\<lambda>t. item_id t = k) ts = Some t \<longrightarrow>
              find (\<lambda>r. fr_id r = k) ?res =
                Some \<lparr> fr_title = item_title t, fr_slug = item_slug t, fr_id = item_id t,
                       fr_posts_count = item_posts_count t, fr_like_count = item_like_count t,
                       fr_views = item_views t,
                       fr_tags = (case item_tags t of None \<Rightarrow> [] | Some tags \<Rightarrow> tags) \<rparr>)
        \<and> (\<forall>p. find (\<lambda>t. item_id t = k) ts = None \<and> find (\<lambda>p. topic_id p = k) ps = Some p \<longrightarrow>
              find (\<lambda>r. fr_id r = k) ?res =
                Some \<lparr> fr_title = topic_title p, fr_slug = topic_slug p, fr_id = topic_id p,
                       fr_posts_count = Some 0, fr_like_count = post_like_count p,
                       fr_views = Some 0, fr_tags = [] \<rparr>)
        \<and> (find (\<lambda>t. item_id t = k) ts = None \<and> find (\<lambda>p. topic_id p = k) ps = None \<longrightarrow>
              find (\<lambda>r. fr_id r = k) ?res = None)"
      by (intro conjI) (fact e, fact d, fact o, fact t, fact p, fact n)
  qed
  have 4: "forumUrl enc query =
       ''https://forum.obsidian.md/search.json?q='' @
         enc (if trim query = [] then ''category:9'' else trim query @ '' category:9'')"
    by (simp add: forumUrl_def forumSearchQuery_def Let_def)
  show ?thesis
    by (intro conjI) (fact 1, fact 2, fact 3, fact 4)
qed

theorem ForumService_search_behaviour_witness:
  "forumUrl (\<lambda>s. s) '' kanban '' = ''https://forum.obsidian.md/search.json?q=kanban category:9''
   \<and> forumNet (forumUrl (\<lambda>s. s) ''themes'') = Inl \<lparr> err_status = Some 503, err_message = ''down'' \<rparr>
   \<and> ForumService_search (\<lambda>s. s) forumNet ''themes'' = []
   \<and> ForumService_search (\<lambda>s. s) (\<lambda>url. Inr (Some \<lparr> topics = None, posts = None \<rparr>))
       ''themes'' = []
   \<and> map fr_id (ForumService_search (\<lambda>s. s) forumNet '' kanban '') = [7, 9]
   \<and> find (\<lambda>r. fr_id r = 7) (ForumService_search (\<lambda>s. s) forumNet '' kanban '') =
     Some \<lparr> fr_title = ''Kanban plugin'', fr_slug = ''kanban'', fr_id = 7,
            fr_posts_count = Some 3, fr_like_count = None, fr_views = Some 90, fr_tags = [] \<rparr>
   \<and> find (\<lambda>r. fr_id r = 9) (ForumService_search (\<lambda>s. s) forumNet '' kanban '') =
     Some \<lparr> fr_title = ''Tasks plugin'', fr_slug = ''tasks'', fr_id = 9,
            fr_posts_count = Some 0, fr_like_count = Some 2, fr_views = Some 0, fr_tags = [] \<rparr>"
proof -
  let ?down = "\<lparr> err_status = Some 503, err_message = ''down'' \<rparr>"
  let ?none = "\<lambda>url :: string. Inr (Some \<lparr> topics = None, posts = None \<rparr>)
      :: http_error + ForumData option"
  note T0 = ForumService_search_behaviour [where requestUrl = forumNet and enc = "\<lambda>s. s"
      and query = "''themes''" and e = ?down
      and data = forumResponse and ts = "[]" and ps = "[]" and k = 0]
  note T1 = ForumService_search_behaviour [where requestUrl = ?none and enc = "\<lambda>s. s"
      and query = "''themes''" and e = ?down
      and data = "\<lparr> topics = None, posts = None \<rparr>" and ts = "[]" and ps = "[]" and k = 0]
  note T7 = ForumService_search_behaviour [where requestUrl = forumNet and enc = "\<lambda>s. s"
      and query = "'' kanban ''" and e = ?down
      and data = forumResponse and ts = "[kanbanTopic]" and ps = "[kanbanPost, tasksPost]"
      and k = 7]
  note T9 = ForumService_search_behaviour [where requestUrl = forumNet and enc = "\<lambda>s. s"
      and query = "'' kanban ''" and e = ?down
      and data = forumResponse and ts = "[kanbanTopic]" and ps = "[kanbanPost, tasksPost]"
      and k = 9]
  have tk: "trim '' kanban '' = ''kanban''" "trim ''themes'' = ''themes''"
    by (simp_all add: string_eval trimStart_def)
  have u: "forumUrl (\<lambda>s. s) '' kanban '' =
      ''https://forum.obsidian.md/search.json?q=kanban category:9''"
    using T7 [THEN conjunct2, THEN conjunct2, THEN conjunct2] by (simp add: tk)
  have u': "forumUrl (\<lambda>s. s) ''themes'' =
      ''https://forum.obsidian.md/search.json?q=themes category:9''"
    using T0 [THEN conjunct2, THEN conjunct2, THEN conjunct2] by (simp add: tk)
  have dn: "forumNet (forumUrl (\<lambda>s. s) ''themes'') = Inl ?down"
    unfolding u' by (simp add: forumNet_def)
  have a: "ForumService_search (\<lambda>s. s) forumNet ''themes'' = []"
    using T0 [THEN conjunct1] dn by simp
  have b: "ForumService_search (\<lambda>s. s) ?none ''themes'' = []"
    using T1 [THEN conjunct2, THEN conjunct2, THEN conjunct1] by simp
  have h: "forumNet (forumUrl (\<lambda>s. s) '' kanban '') = Inr (Some forumResponse) \<and>
      (topics forumResponse = Some [kanbanTopic] \<or>
       topics forumResponse = None \<and> [kanbanTopic] = []) \<and>
      (posts forumResponse = Some [kanbanPost, tasksPost] \<or>
       posts forumResponse = None \<and> [kanbanPost, tasksPost] = [])"
    unfolding u by (simp add: forumNet_def forumResponse_def)
  note C7 = T7 [THEN conjunct2, THEN conjunct2, THEN conjunct1, THEN mp, OF h]
  note C9 = T9 [THEN conjunct2, THEN conjunct2, THEN conjunct1, THEN mp, OF h]
  have "map fr_id (ForumService_search (\<lambda>s. s) forumNet '' kanban '') =
      rev (remdups (rev (map item_id [kanbanTopic] @ map topic_id [kanbanPost, tasksPost])))"
    by (rule C7 [THEN conjunct2, THEN conjunct2, THEN conjunct1])
  then have c: "map fr_id (ForumService_search (\<lambda>s. s) forumNet '' kanban '') = [7, 9]"
    by (simp add: kanbanTopic_def kanbanPost_def tasksPost_def)
  have f7: "find (\<lambda>t. item_id t = 7) [kanbanTopic] = Some kanbanTopic"
    by (simp add: kanbanTopic_def)
  have f9: "find (\<lambda>t. item_id t = 9) [kanbanTopic] = None \<and>
      find (\<lambda>p. topic_id p = 9) [kanbanPost, tasksPost] = Some tasksPost"
    by (simp add: kanbanTopic_def kanbanPost_def tasksPost_def)
  have d: "find (\<lambda>r. fr_id r = 7) (ForumService_search (\<lambda>s. s) forumNet '' kanban '') =
     Some \<lparr> fr_title = ''Kanban plugin'', fr_slug = ''kanban'', fr_id = 7,
            fr_posts_count = Some 3, fr_like_count = None, fr_views = Some 90, fr_tags = [] \<rparr>"
    using C7 [THEN conjunct2, THEN conjunct2, THEN conjunct2, THEN conjunct1, THEN spec,
        THEN mp, OF f7]
    by (simp add: kanbanTopic_def)
  have e: "find (\<lambda>r. fr_id r = 9) (ForumService_search (\<lambda>s. s) forumNet '' kanban '') =
     Some \<lparr> fr_title = ''Tasks plugin'', fr_slug = ''tasks'', fr_id = 9,
            fr_posts_count = Some 0, fr_like_count = Some 2, fr_views = Some 0, fr_tags = [] \<rparr>"
    using C9 [THEN conjunct2, THEN conjunct2, THEN conjunct2, THEN conjunct2, THEN conjunct1,
        THEN spec, THEN mp, OF f9]
    by (simp add: tasksPost_def)
  show ?thesis
    by (intro conjI) (fact u, fact dn, fact a, fact b, fact c, fact d, fact e)
qed

section \<open>Properties of the sort\<close>

lemma mset_insertSorted: "mset (insertSorted cmp x ys) = add_mset x (mset ys)"
  by (induction ys) auto

lemma set_insertSorted: "set (insertSorted cmp x ys) = insert x (set ys)"
  by (induction ys) auto

lemma mset_sortWith: "mset (sortWith cmp xs) = mset xs"
  by (induction xs) (simp_all add: sortWith_def mset_insertSorted)

lemma set_sortWith: "set (sortWith cmp xs) = set xs"
  using mset_sortWith [of cmp xs] by (metis set_mset_mset)

lemma sorted_insertSorted:
  assumes total: "\<And>a b. cmp a b \<le> 0 \<or> cmp b a \<le> 0"
    and trans: "\<And>a b c. cmp a b \<le> 0 \<Longrightarrow> cmp b c \<le> 0 \<Longrightarrow> cmp a c \<le> 0"
    and sorted: "sorted_wrt (\<lambda>a b. cmp a b \<le> 0) ys"
  shows "sorted_wrt (\<lambda>a b. cmp a b \<le> 0) (insertSorted cmp x ys)"
  using sorted
proof (induction ys)
  case Nil
  then show ?case by simp
next
  case (Cons y ys)
  show ?case
  proof (cases "cmp x y \<le> 0")
    case True
    have "\<forall>z\<in>set ys. cmp x z \<le> 0"
      using True Cons.prems trans by auto
    then show ?thesis using True Cons.prems by simp
  next
    case False
    then have yx: "cmp y x \<le> 0" using total [of x y] by simp
    have "sorted_wrt (\<lambda>a b. cmp a b \<le> 0) (insertSorted cmp x ys)"
      using Cons by simp
    then show ?thesis using False yx Cons.prems by (simp add: set_insertSorted)
  qed
qed

lemma sorted_sortWith:
  assumes "\<And>a b. cmp a b \<le> 0 \<or> cmp b a \<le> 0"
    and "\<And>a b c. cmp a b \<le> 0 \<Longrightarrow> cmp b c \<le> 0 \<Longrightarrow> cmp a c \<le> 0"
  shows "sorted_wrt (\<lambda>a b. cmp a b \<le> 0) (sortWith cmp xs)"
proof (induction xs)
  case Nil
  then show ?case by (simp add: sortWith_def)
next
  case (Cons x xs)
  have "sortWith cmp (x # xs) = insertSorted cmp x (sortWith cmp xs)"
    by (simp add: sortWith_def)
  then show ?case using sorted_insertSorted [OF assms Cons] by simp
qed

lemma consistent_total:
  assumes "consistentComparator cmp"
  shows "cmp a b \<le> 0 \<or> cmp b a \<le> 0"
proof (cases "cmp a b \<le> 0")
  case False
  then have "cmp a b > 0" by simp
  then have "cmp b a < 0" using assms unfolding consistentComparator_def by blast
  then show ?thesis by simp
qed simp

lemma consistent_trans:
  assumes "consistentComparator cmp" "cmp a b \<le> 0" "cmp b c \<le> 0"
  shows "cmp a c \<le> 0"
  using assms unfolding consistentComparator_def by blast

lemma candidateCompare_total:
  assumes "consistentComparator lc"
  shows "candidateCompare lc a b \<le> 0 \<or> candidateCompare lc b a \<le> 0"
  using consistent_total [OF assms, of "pluginId a" "pluginId b"]
  by (auto simp: candidateCompare_def)

lemma candidateCompare_trans:
  assumes "consistentComparator lc" "candidateCompare lc a b \<le> 0" "candidateCompare lc b c \<le> 0"
  shows "candidateCompare lc a c \<le> 0"
  using consistent_trans [OF assms(1), of "pluginId a" "pluginId b" "pluginId c"] assms(2,3)
  by (auto simp: candidateCompare_def split: if_splits)

lemma candidateCompare_consistent:
  assumes "consistentComparator lc"
  shows "consistentComparator (candidateCompare lc)"
  unfolding consistentComparator_def
proof (intro conjI allI impI)
  fix a show "candidateCompare lc a a = 0"
    using assms by (simp add: candidateCompare_def consistentComparator_def)
next
  fix a b show "(candidateCompare lc a b < 0) = (0 < candidateCompare lc b a)"
    using assms by (auto simp: candidateCompare_def consistentComparator_def)
next
  fix a b c assume "candidateCompare lc a b \<le> 0 \<and> candidateCompare lc b c \<le> 0"
  then show "candidateCompare lc a c \<le> 0"
    using candidateCompare_trans [OF assms] by blast
qed

lemma sorted_candidates:
  assumes "consistentComparator lc"
  shows "sorted_wrt (\<lambda>a b. candidateCompare lc a b \<le> 0) (sortWith (candidateCompare lc) cs)"
  by (rule sorted_sortWith) (use candidateCompare_total [OF assms] candidateCompare_trans [OF assms] in blast)+

lemma sorted_candidates_nth:
  assumes "consistentComparator lc" "i < j" "j < length (sortWith (candidateCompare lc) cs)"
  shows "candidateCompare lc (sortWith (candidateCompare lc) cs ! i)
           (sortWith (candidateCompare lc) cs ! j) \<le> 0"
  using sorted_candidates [OF assms(1), of cs] assms(2,3)
  by (simp add: sorted_wrt_iff_nth_less)

lemma candidateCompare_le_needs:
  "candidateCompare lc a b \<le> 0 \<Longrightarrow> needsUpdate b \<Longrightarrow> needsUpdate a"
  by (auto simp: candidateCompare_def split: if_splits)

lemma candidateCompare_le_ids:
  "candidateCompare lc a b \<le> 0 \<Longrightarrow> needsUpdate a = needsUpdate b \<Longrightarrow>
     lc (pluginId a) (pluginId b) \<le> 0"
  by (auto simp: candidateCompare_def split: if_splits)

lemma sort_three:
  assumes c: "consistentComparator lc"
    and n: "\<not> needsUpdate A" "needsUpdate B" "needsUpdate C"
    and lt: "lc (pluginId C) (pluginId B) < 0"
  shows "sortWith (candidateCompare lc) [A, B, C] = [C, B, A]"
    "sortWith (candidateCompare lc) [A, C, B] = [C, B, A]"
    "sortWith (candidateCompare lc) [B, A, C] = [C, B, A]"
    "sortWith (candidateCompare lc) [B, C, A] = [C, B, A]"
    "sortWith (candidateCompare lc) [C, A, B] = [C, B, A]"
    "sortWith (candidateCompare lc) [C, B, A] = [C, B, A]"
proof -
  have bc: "lc (pluginId B) (pluginId C) > 0"
    using c lt unfolding consistentComparator_def by blast
  show "sortWith (candidateCompare lc) [A, B, C] = [C, B, A]"
    "sortWith (candidateCompare lc) [A, C, B] = [C, B, A]"
    "sortWith (candidateCompare lc) [B, A, C] = [C, B, A]"
    "sortWith (candidateCompare lc) [B, C, A] = [C, B, A]"
    "sortWith (candidateCompare lc) [C, A, B] = [C, B, A]"
    "sortWith (candidateCompare lc) [C, B, A] = [C, B, A]"
    using n lt bc by (simp_all add: sortWith_def candidateCompare_def)
qed

section \<open>Properties of the update check\<close>

text \<open>Reads and writes of a property.\<close>

lemma getProperty_own: "obj key = Some s \<Longrightarrow> getProperty obj key = Some (StringValue s)"
  by (simp add: getProperty_def)

lemma getProperty_update: "getProperty (obj(key \<mapsto> v)) key = Some (StringValue v)"
  by (simp add: getProperty_def)

lemma getProperty_setProperty_other:
  "k \<noteq> key \<Longrightarrow> getProperty (setProperty obj key v) k = getProperty obj k"
  by (simp add: getProperty_def setProperty_def)

lemma setProperty_falsy:
  "\<not> truthyValue (getProperty obj key) \<Longrightarrow> setProperty obj key v = obj(key \<mapsto> v)"
  by (auto simp: getProperty_def setProperty_def split: option.splits if_splits)

lemma getProperty_setProperty_falsy:
  "\<not> truthyValue (getProperty obj key) \<Longrightarrow>
     getProperty (setProperty obj key v) key = Some (StringValue v)"
  by (simp add: setProperty_falsy getProperty_update)

lemma truthyValue_string: "truthyValue (map_option StringValue x) = truthy x"
  by (cases x) (simp_all add: truthy_def)

lemma truthyValue_Some: "truthyValue x \<Longrightarrow> \<exists>v. x = Some v"
  by (cases x) simp_all

lemma getLatest_world:
  "settings (snd (getLatestManifestVersionFromRepo net r w)) = settings w \<and>
   saved (snd (getLatestManifestVersionFromRepo net r w)) = saved w \<and>
   files (snd (getLatestManifestVersionFromRepo net r w)) = files w \<and>
   filter isDetectionEvent (events (snd (getLatestManifestVersionFromRepo net r w))) =
     filter isDetectionEvent (events w)"
  by (auto simp: getLatestManifestVersionFromRepo_def io_defs split: sum.splits option.splits)

lemma versionCandidate_result:
  "\<exists>c w'. versionCandidate net pid cv r src w = (Inr c, w') \<and>
      settings w' = settings w \<and> saved w' = saved w \<and> files w' = files w \<and>
      filter isDetectionEvent (events w') = filter isDetectionEvent (events w) \<and>
      pluginId c = pid \<and> repo c = Some r \<and> source c = src \<and>
      (needsUpdate c \<longleftrightarrow> versionStatus c = UpdateAvailable)"
proof (cases "getLatestManifestVersionFromRepo net (templateString r) w")
  case (Pair res w1)
  have w1: "settings w1 = settings w \<and> saved w1 = saved w \<and> files w1 = files w \<and>
      filter isDetectionEvent (events w1) = filter isDetectionEvent (events w)"
    using getLatest_world [of net "templateString r" w] Pair by simp
  show ?thesis
  proof (cases res)
    case (Inl e)
    then show ?thesis using Pair w1
      by (simp add: versionCandidate_def tryCatch_def bind_def ret_def failedCandidate_def)
  next
    case (Inr lv)
    then show ?thesis using Pair w1
      by (cases lv)
         (simp_all add: versionCandidate_def tryCatch_def bind_def ret_def failedCandidate_def
           comparedCandidate_def Let_def)
  qed
qed

lemma resolveRepo_official:
  assumes "truthy (rb pid)"
  shows "resolveRepo net rb pid m w =
     (Inr (map_option StringValue (rb pid), Official, unmappedReason, False), w)"
  using assms by (simp add: resolveRepo_def)

lemma resolveRepo_tracked:
  assumes "\<not> truthy (rb pid)" "truthyValue (getProperty (installedRepoMap (settings w)) pid)"
  shows "resolveRepo net rb pid m w =
     (Inr (getProperty (installedRepoMap (settings w)) pid, Tracked, unmappedReason, False), w)"
  using assms by (simp add: resolveRepo_def)

lemma resolveRepo_detected:
  assumes "\<not> truthy (rb pid)" "\<not> truthyValue (getProperty (installedRepoMap (settings w)) pid)"
    "truthy (det_repo (fst (findRepoByManifestId net pid m)))"
  shows "resolveRepo net rb pid m w =
     (Inr (map_option StringValue (det_repo (fst (findRepoByManifestId net pid m))), Detected,
           unmappedReason, True),
      w\<lparr> events := events w @ map Req (snd (findRepoByManifestId net pid m)),
         settings := (settings w)
           \<lparr> installedRepoMap := (installedRepoMap (settings w))
               (pid \<mapsto> the (det_repo (fst (findRepoByManifestId net pid m)))) \<rparr> \<rparr>)"
  using assms by (simp add: resolveRepo_def Let_def setProperty_falsy)

lemma resolveRepo_unresolved:
  assumes "\<not> truthy (rb pid)" "\<not> truthyValue (getProperty (installedRepoMap (settings w)) pid)"
    "\<not> truthy (det_repo (fst (findRepoByManifestId net pid m)))"
  shows "resolveRepo net rb pid m w =
     (Inr (map_option StringValue (det_repo (fst (findRepoByManifestId net pid m))), UnknownSource,
           (if truthy (det_reason (fst (findRepoByManifestId net pid m)))
            then the (det_reason (fst (findRepoByManifestId net pid m))) else unmappedReason),
           False),
      w\<lparr> events := events w @ map Req (snd (findRepoByManifestId net pid m)) \<rparr>)"
  using assms by (simp add: resolveRepo_def Let_def)

text \<open>What one round of the loop does, in one statement.\<close>

lemma checkPlugin_result:
  "\<exists>c changed w'.
     checkPlugin net h rb acc entry w = (Inr (fst acc @ [c], snd acc \<or> changed), w') \<and>
     pluginId c = fst entry \<and> candidateInvariant c \<and>
     saved w' = saved w \<and> files w' = files w \<and>
     (\<forall>k. truthyValue (getProperty (installedRepoMap (settings w)) k) \<longrightarrow>
          getProperty (installedRepoMap (settings w')) k =
            getProperty (installedRepoMap (settings w)) k) \<and>
     extraVaultPaths (settings w') = extraVaultPaths (settings w) \<and>
     parentVaultDirectories (settings w') = parentVaultDirectories (settings w) \<and>
     installLocation (settings w') = installLocation (settings w) \<and>
     (truthy (rb (fst entry)) \<longrightarrow>
        source c = Official \<and> repo c = map_option StringValue (rb (fst entry)) \<and>
        settings w' = settings w \<and>
        filter isDetectionEvent (events w') = filter isDetectionEvent (events w)) \<and>
     (\<not> truthy (rb (fst entry)) \<and>
      truthyValue (getProperty (installedRepoMap (settings w)) (fst entry)) \<longrightarrow>
        source c = Tracked \<and> repo c = getProperty (installedRepoMap (settings w)) (fst entry) \<and>
        settings w' = settings w \<and>
        filter isDetectionEvent (events w') = filter isDetectionEvent (events w)) \<and>
     (source c = Detected \<longleftrightarrow> changed) \<and>
     (source c = Detected \<longrightarrow>
        truthyValue (repo c) \<and> getProperty (installedRepoMap (settings w')) (fst entry) = repo c \<and>
        \<not> truthy (rb (fst entry)) \<and>
        \<not> truthyValue (getProperty (installedRepoMap (settings w)) (fst entry)))"
proof -
  define m where "m = (case readManifestFromDisk h (files w) (fst entry) of
                  Some m \<Rightarrow> m | None \<Rightarrow> snd entry)"
  define cv where "cv = (if truthy (m_version m) then the (m_version m) else ''0.0.0'')"
  let ?pid = "fst entry"
  let ?G = "getProperty (installedRepoMap (settings w))"
  have cp: "checkPlugin net h rb acc entry w =
      bind (resolveRepo net rb ?pid m)
        (\<lambda>resolved.
           case resolved of (repo', source', unresolvedReason, changed) \<Rightarrow>
             bind (if \<not> truthyValue repo' then ret (unresolvedCandidate ?pid cv unresolvedReason)
                   else versionCandidate net ?pid cv (the repo') source')
               (\<lambda>candidate. ret (fst acc @ [candidate], snd acc \<or> changed))) w"
    unfolding checkPlugin_def Let_def m_def cv_def by (rule refl)
  consider (official) "truthy (rb ?pid)"
    | (tracked) "\<not> truthy (rb ?pid)" "truthyValue (?G ?pid)"
    | (detected) "\<not> truthy (rb ?pid)" "\<not> truthyValue (?G ?pid)"
        "truthy (det_repo (fst (findRepoByManifestId net ?pid m)))"
    | (unresolved) "\<not> truthy (rb ?pid)" "\<not> truthyValue (?G ?pid)"
        "\<not> truthy (det_repo (fst (findRepoByManifestId net ?pid m)))"
    by blast
  then show ?thesis
  proof cases
    case official
    then obtain r where r: "rb ?pid = Some r" "r \<noteq> []" by (auto simp: truthy_def)
    obtain c w' where v: "versionCandidate net ?pid cv (StringValue r) Official w = (Inr c, w')"
      "settings w' = settings w" "saved w' = saved w" "files w' = files w"
      "filter isDetectionEvent (events w') = filter isDetectionEvent (events w)"
      "pluginId c = ?pid" "repo c = Some (StringValue r)" "source c = Official"
      "needsUpdate c \<longleftrightarrow> versionStatus c = UpdateAvailable"
      using versionCandidate_result [of net ?pid cv "StringValue r" Official w] by blast
    have "checkPlugin net h rb acc entry w = (Inr (fst acc @ [c], snd acc \<or> False), w')"
      using official r v(1)
      by (simp add: cp resolveRepo_official bind_def ret_def)
    moreover have "candidateInvariant c"
      using v r by (simp add: candidateInvariant_def)
    ultimately show ?thesis
      using v r official by (intro exI [of _ c] exI [of _ False] exI [of _ w']) auto
  next
    case tracked
    then obtain r where r: "?G ?pid = Some r"
      using truthyValue_Some by blast
    obtain c w' where v: "versionCandidate net ?pid cv r Tracked w = (Inr c, w')"
      "settings w' = settings w" "saved w' = saved w" "files w' = files w"
      "filter isDetectionEvent (events w') = filter isDetectionEvent (events w)"
      "pluginId c = ?pid" "repo c = Some r" "source c = Tracked"
      "needsUpdate c \<longleftrightarrow> versionStatus c = UpdateAvailable"
      using versionCandidate_result [of net ?pid cv r Tracked w] by blast
    have "checkPlugin net h rb acc entry w = (Inr (fst acc @ [c], snd acc \<or> False), w')"
      using tracked r v(1)
      by (simp add: cp resolveRepo_tracked bind_def ret_def)
    moreover have "candidateInvariant c"
      using v tracked r
      by (auto simp: candidateInvariant_def getProperty_def split: option.splits if_splits)
    ultimately show ?thesis
      using v r tracked by (intro exI [of _ c] exI [of _ False] exI [of _ w']) auto
  next
    case detected
    define d where "d = findRepoByManifestId net ?pid m"
    obtain r where r: "det_repo (fst d) = Some r" "r \<noteq> []"
      using detected(3) by (auto simp: truthy_def d_def)
    define w1 where "w1 = w\<lparr> events := events w @ map Req (snd d),
         settings := (settings w) \<lparr> installedRepoMap := (installedRepoMap (settings w))(?pid \<mapsto> r) \<rparr> \<rparr>"
    have rr: "resolveRepo net rb ?pid m w =
        (Inr (Some (StringValue r), Detected, unmappedReason, True), w1)"
      using resolveRepo_detected [of rb ?pid w net m, OF detected] r
      by (simp add: d_def [symmetric] w1_def)
    obtain c w' where v: "versionCandidate net ?pid cv (StringValue r) Detected w1 = (Inr c, w')"
      "settings w' = settings w1" "saved w' = saved w1" "files w' = files w1"
      "pluginId c = ?pid" "repo c = Some (StringValue r)" "source c = Detected"
      "needsUpdate c \<longleftrightarrow> versionStatus c = UpdateAvailable"
      using versionCandidate_result [of net ?pid cv "StringValue r" Detected w1] by blast
    have "checkPlugin net h rb acc entry w = (Inr (fst acc @ [c], snd acc \<or> True), w')"
      using r v(1) by (simp add: cp rr bind_def ret_def)
    moreover have "candidateInvariant c"
      using v r by (simp add: candidateInvariant_def)
    moreover have "\<forall>k. truthyValue (?G k) \<longrightarrow>
          getProperty (installedRepoMap (settings w')) k = ?G k"
    proof (intro allI impI)
      fix k assume t: "truthyValue (?G k)"
      then have "k \<noteq> ?pid" using detected(2) by auto
      then show "getProperty (installedRepoMap (settings w')) k = ?G k"
        using v(2) by (simp add: w1_def getProperty_def)
    qed
    moreover have "getProperty (installedRepoMap (settings w')) ?pid = Some (StringValue r)"
      using v(2) by (simp add: w1_def getProperty_def)
    ultimately show ?thesis
      using v r detected
      by (intro exI [of _ c] exI [of _ True] exI [of _ w']) (auto simp: w1_def)
  next
    case unresolved
    define d where "d = findRepoByManifestId net ?pid m"
    define reason where "reason = (if truthy (det_reason (fst d)) then the (det_reason (fst d))
        else unmappedReason)"
    define w1 where "w1 = w\<lparr> events := events w @ map Req (snd d) \<rparr>"
    have rr: "resolveRepo net rb ?pid m w =
        (Inr (map_option StringValue (det_repo (fst d)), UnknownSource, reason, False), w1)"
      using resolveRepo_unresolved [of rb ?pid w net m, OF unresolved]
      by (simp add: d_def reason_def w1_def)
    have "checkPlugin net h rb acc entry w =
        (Inr (fst acc @ [unresolvedCandidate ?pid cv reason], snd acc \<or> False), w1)"
      using unresolved(3) by (simp add: cp rr bind_def ret_def d_def truthyValue_string)
    then show ?thesis
      using unresolved
      by (intro exI [of _ "unresolvedCandidate (fst entry) cv reason"] exI [of _ False]
          exI [of _ w1])
        (auto simp: w1_def unresolvedCandidate_def candidateInvariant_def)
  qed
qed


text \<open>The loop over the installed plugins.\<close>

lemma foldIO_Cons_Inr:
  assumes "body acc x w = (Inr acc1, w1)"
  shows "foldIO (x # xs) acc body w = foldIO xs acc1 body w1"
  using assms by (simp add: bind_def)

lemma fold_checkPlugin:
  "\<exists>new changed w'.
     foldIO es acc (checkPlugin net h rb) w = (Inr (fst acc @ new, changed), w') \<and>
     map pluginId new = map fst es \<and>
     (\<forall>c\<in>set new. candidateInvariant c) \<and>
     (\<forall>k. truthyValue (getProperty (installedRepoMap (settings w)) k) \<longrightarrow>
          getProperty (installedRepoMap (settings w')) k = getProperty (installedRepoMap (settings w)) k) \<and>
     saved w' = saved w \<and> files w' = files w \<and>
     (\<forall>c\<in>set new. truthy (rb (pluginId c)) \<longrightarrow> source c = Official \<and> repo c = map_option StringValue (rb (pluginId c))) \<and>
     (\<forall>c\<in>set new. \<not> truthy (rb (pluginId c)) \<and>
          truthyValue (getProperty (installedRepoMap (settings w)) (pluginId c)) \<longrightarrow>
          source c = Tracked \<and> repo c = getProperty (installedRepoMap (settings w)) (pluginId c)) \<and>
     (\<forall>c\<in>set new. source c = Detected \<longrightarrow>
          truthyValue (repo c) \<and> getProperty (installedRepoMap (settings w')) (pluginId c) = repo c \<and>
          \<not> truthy (rb (pluginId c)) \<and> \<not> truthyValue (getProperty (installedRepoMap (settings w)) (pluginId c))) \<and>
     (changed \<longleftrightarrow> snd acc \<or> (\<exists>c\<in>set new. source c = Detected)) \<and>
     ((\<forall>e\<in>set es. truthy (rb (fst e)) \<or> truthyValue (getProperty (installedRepoMap (settings w)) (fst e))) \<longrightarrow>
        settings w' = settings w \<and>
        filter isDetectionEvent (events w') = filter isDetectionEvent (events w))"
proof (induction es arbitrary: acc w)
  case Nil
  show ?case
    by (intro exI [of _ "[]"] exI [of _ "snd acc"] exI [of _ w]) (simp add: ret_def)
next
  case (Cons e es)
  let ?M = "\<lambda>w. getProperty (installedRepoMap (settings w))"
  obtain c ch w1 where
    step: "checkPlugin net h rb acc e w = (Inr (fst acc @ [c], snd acc \<or> ch), w1)"
    and id: "pluginId c = fst e" and inv: "candidateInvariant c"
    and fr: "saved w1 = saved w" "files w1 = files w"
    and keep: "\<forall>k. truthyValue (?M w k) \<longrightarrow> ?M w1 k = ?M w k"
    and off: "truthy (rb (fst e)) \<longrightarrow>
        source c = Official \<and> repo c = map_option StringValue (rb (fst e)) \<and> settings w1 = settings w \<and>
        filter isDetectionEvent (events w1) = filter isDetectionEvent (events w)"
    and tr: "\<not> truthy (rb (fst e)) \<and> truthyValue (?M w (fst e)) \<longrightarrow>
        source c = Tracked \<and> repo c = ?M w (fst e) \<and> settings w1 = settings w \<and>
        filter isDetectionEvent (events w1) = filter isDetectionEvent (events w)"
    and dc: "source c = Detected \<longleftrightarrow> ch"
    and det: "source c = Detected \<longrightarrow>
        truthyValue (repo c) \<and> ?M w1 (fst e) = repo c \<and>
        \<not> truthy (rb (fst e)) \<and> \<not> truthyValue (?M w (fst e))"
    using checkPlugin_result [of net h rb acc e w] by blast
  obtain new ch' w' where
    run: "foldIO es (fst acc @ [c], snd acc \<or> ch) (checkPlugin net h rb) w1 =
        (Inr (fst (fst acc @ [c], snd acc \<or> ch) @ new, ch'), w')"
    and ids: "map pluginId new = map fst es"
    and invs: "\<forall>c\<in>set new. candidateInvariant c"
    and keep': "\<forall>k. truthyValue (?M w1 k) \<longrightarrow> ?M w' k = ?M w1 k"
    and fr': "saved w' = saved w1" "files w' = files w1"
    and off': "\<forall>c\<in>set new. truthy (rb (pluginId c)) \<longrightarrow>
        source c = Official \<and> repo c = map_option StringValue (rb (pluginId c))"
    and tr': "\<forall>c\<in>set new. \<not> truthy (rb (pluginId c)) \<and> truthyValue (?M w1 (pluginId c)) \<longrightarrow>
        source c = Tracked \<and> repo c = ?M w1 (pluginId c)"
    and det': "\<forall>c\<in>set new. source c = Detected \<longrightarrow>
        truthyValue (repo c) \<and> ?M w' (pluginId c) = repo c \<and>
        \<not> truthy (rb (pluginId c)) \<and> \<not> truthyValue (?M w1 (pluginId c))"
    and ch': "ch' \<longleftrightarrow> snd (fst acc @ [c], snd acc \<or> ch) \<or> (\<exists>c\<in>set new. source c = Detected)"
    and quiet': "(\<forall>e\<in>set es. truthy (rb (fst e)) \<or> truthyValue (?M w1 (fst e))) \<longrightarrow>
        settings w' = settings w1 \<and>
        filter isDetectionEvent (events w') = filter isDetectionEvent (events w1)"
    using Cons.IH [of "(fst acc @ [c], snd acc \<or> ch)" w1] by blast
  have 1: "foldIO (e # es) acc (checkPlugin net h rb) w = (Inr (fst acc @ (c # new), ch'), w')"
    using foldIO_Cons_Inr [of "checkPlugin net h rb" acc e w "(fst acc @ [c], snd acc \<or> ch)" w1 es]
      step run by simp
  have 2: "map pluginId (c # new) = map fst (e # es)" using id ids by simp
  have 3: "\<forall>c\<in>set (c # new). candidateInvariant c" using inv invs by simp
  have 4: "\<forall>k. truthyValue (?M w k) \<longrightarrow> ?M w' k = ?M w k"
    using keep keep' by metis
  have 5: "saved w' = saved w" "files w' = files w" using fr fr' by simp_all
  have 6: "\<forall>c\<in>set (c # new). truthy (rb (pluginId c)) \<longrightarrow>
        source c = Official \<and> repo c = map_option StringValue (rb (pluginId c))"
    using off off' id by simp
  have 7: "\<forall>c\<in>set (c # new). \<not> truthy (rb (pluginId c)) \<and> truthyValue (?M w (pluginId c)) \<longrightarrow>
        source c = Tracked \<and> repo c = ?M w (pluginId c)"
  proof
    fix d assume d: "d \<in> set (c # new)"
    show "\<not> truthy (rb (pluginId d)) \<and> truthyValue (?M w (pluginId d)) \<longrightarrow>
        source d = Tracked \<and> repo d = ?M w (pluginId d)"
    proof (cases "d = c")
      case True
      then show ?thesis using tr id by simp
    next
      case False
      then have dn: "d \<in> set new" using d by simp
      show ?thesis
      proof
        assume h: "\<not> truthy (rb (pluginId d)) \<and> truthyValue (?M w (pluginId d))"
        then have eq: "?M w1 (pluginId d) = ?M w (pluginId d)" using keep by blast
        then have "truthyValue (?M w1 (pluginId d))" using h by simp
        then show "source d = Tracked \<and> repo d = ?M w (pluginId d)"
          using tr' dn h eq by metis
      qed
    qed
  qed
  have 8: "\<forall>c\<in>set (c # new). source c = Detected \<longrightarrow>
        truthyValue (repo c) \<and> ?M w' (pluginId c) = repo c \<and>
        \<not> truthy (rb (pluginId c)) \<and> \<not> truthyValue (?M w (pluginId c))"
  proof
    fix d assume d: "d \<in> set (c # new)"
    show "source d = Detected \<longrightarrow>
        truthyValue (repo d) \<and> ?M w' (pluginId d) = repo d \<and>
        \<not> truthy (rb (pluginId d)) \<and> \<not> truthyValue (?M w (pluginId d))"
    proof
      assume sd: "source d = Detected"
      show "truthyValue (repo d) \<and> ?M w' (pluginId d) = repo d \<and>
        \<not> truthy (rb (pluginId d)) \<and> \<not> truthyValue (?M w (pluginId d))"
      proof (cases "d = c")
        case True
        then have a: "truthyValue (repo c)" "?M w1 (fst e) = repo c" "\<not> truthy (rb (fst e))"
          "\<not> truthyValue (?M w (fst e))"
          using det sd by auto
        then have "truthyValue (?M w1 (fst e))" by simp
        then have "?M w' (fst e) = ?M w1 (fst e)" using keep' by blast
        then show ?thesis using a True id by simp
      next
        case False
        then have dn: "d \<in> set new" using d by simp
        then have a: "truthyValue (repo d)" "?M w' (pluginId d) = repo d" "\<not> truthy (rb (pluginId d))"
          "\<not> truthyValue (?M w1 (pluginId d))"
          using det' sd by auto
        have "\<not> truthyValue (?M w (pluginId d))"
        proof
          assume t: "truthyValue (?M w (pluginId d))"
          then have "?M w1 (pluginId d) = ?M w (pluginId d)" using keep by blast
          then show False using a(4) t by simp
        qed
        then show ?thesis using a by simp
      qed
    qed
  qed
  have 9: "ch' \<longleftrightarrow> snd acc \<or> (\<exists>c\<in>set (c # new). source c = Detected)"
    using ch' dc by auto
  have 10: "(\<forall>e\<in>set (e # es). truthy (rb (fst e)) \<or> truthyValue (?M w (fst e))) \<longrightarrow>
        settings w' = settings w \<and>
        filter isDetectionEvent (events w') = filter isDetectionEvent (events w)"
  proof
    assume all: "\<forall>e\<in>set (e # es). truthy (rb (fst e)) \<or> truthyValue (?M w (fst e))"
    then have "truthy (rb (fst e)) \<or> truthyValue (?M w (fst e))" by simp
    then have s1: "settings w1 = settings w \<and>
        filter isDetectionEvent (events w1) = filter isDetectionEvent (events w)"
      using off tr by blast
    then have "\<forall>e\<in>set es. truthy (rb (fst e)) \<or> truthyValue (?M w1 (fst e))"
      using all by simp
    then show "settings w' = settings w \<and>
        filter isDetectionEvent (events w') = filter isDetectionEvent (events w)"
      using quiet' s1 by simp
  qed
  show ?case
    by (intro exI [of _ "c # new"] exI [of _ ch'] exI [of _ w'] conjI)
       (fact 1, fact 2, fact 3, fact 4, fact 5(1), fact 5(2), fact 6, fact 7, fact 8, fact 9, fact 10)
qed


lemma saveSettings_eq:
  "saveSettings h w =
     (case saveData h (settings w) of
        Some m \<Rightarrow> (Inl (HostError m), w\<lparr> events := events w @ [SaveSettings] \<rparr>)
      | None \<Rightarrow> (Inr (), w\<lparr> events := events w @ [SaveSettings], saved := Some (settings w) \<rparr>))"
  by (simp add: io_defs split: option.splits)

text \<open>A run of the check that returns, in one statement.\<close>

lemma check_ok_at:
  assumes res: "checkInstalledPluginUpdates net h w =
      (Inr (sortWith (candidateCompare (localeCompare h)) cands), w')"
    and ok: "fst (checkInstalledPluginUpdates net h w) = Inr out"
    and ids: "map pluginId cands = map fst (manifests h (files w))"
    and invs: "\<forall>c\<in>set cands. candidateInvariant c"
    and keep: "\<forall>k. truthyValue (getProperty (installedRepoMap (settings w)) k) \<longrightarrow>
          getProperty (installedRepoMap (settings w')) k = getProperty (installedRepoMap (settings w)) k"
    and fr: "files w' = files w"
    and off: "\<forall>c\<in>set cands. truthy (officialRepoById net (pluginId c)) \<longrightarrow>
          source c = Official \<and> repo c = map_option StringValue (officialRepoById net (pluginId c))"
    and tr: "\<forall>c\<in>set cands. \<not> truthy (officialRepoById net (pluginId c)) \<and>
          truthyValue (getProperty (installedRepoMap (settings w)) (pluginId c)) \<longrightarrow>
          source c = Tracked \<and> repo c = getProperty (installedRepoMap (settings w)) (pluginId c)"
    and det: "\<forall>c\<in>set cands. source c = Detected \<longrightarrow>
          truthyValue (repo c) \<and> getProperty (installedRepoMap (settings w')) (pluginId c) = repo c \<and>
          saved w' = Some (settings w') \<and>
          \<not> truthy (officialRepoById net (pluginId c)) \<and>
          \<not> truthyValue (getProperty (installedRepoMap (settings w)) (pluginId c))"
    and quiet: "(\<forall>e\<in>set (manifests h (files w)).
          truthy (officialRepoById net (fst e)) \<or> truthyValue (getProperty (installedRepoMap (settings w)) (fst e))) \<longrightarrow>
        settings w' = settings w \<and>
        filter isDetectionEvent (events w') = filter isDetectionEvent (events w)"
  shows "\<exists>cands.
     out = sortWith (candidateCompare (localeCompare h)) cands \<and>
     map pluginId cands = map fst (manifests h (files w)) \<and>
     (\<forall>c\<in>set cands. candidateInvariant c) \<and>
     (\<forall>k. truthyValue (getProperty (installedRepoMap (settings w)) k) \<longrightarrow>
          getProperty (installedRepoMap (settings (snd (checkInstalledPluginUpdates net h w)))) k = getProperty (installedRepoMap (settings w)) k) \<and>
     files (snd (checkInstalledPluginUpdates net h w)) = files w \<and>
     (\<forall>c\<in>set cands. truthy (officialRepoById net (pluginId c)) \<longrightarrow>
          source c = Official \<and> repo c = map_option StringValue (officialRepoById net (pluginId c))) \<and>
     (\<forall>c\<in>set cands. \<not> truthy (officialRepoById net (pluginId c)) \<and>
          truthyValue (getProperty (installedRepoMap (settings w)) (pluginId c)) \<longrightarrow>
          source c = Tracked \<and> repo c = getProperty (installedRepoMap (settings w)) (pluginId c)) \<and>
     (\<forall>c\<in>set cands. source c = Detected \<longrightarrow>
          truthyValue (repo c) \<and> getProperty (installedRepoMap (settings (snd (checkInstalledPluginUpdates net h w)))) (pluginId c) = repo c \<and>
          saved (snd (checkInstalledPluginUpdates net h w)) = Some (settings (snd (checkInstalledPluginUpdates net h w))) \<and>
          \<not> truthy (officialRepoById net (pluginId c)) \<and>
          \<not> truthyValue (getProperty (installedRepoMap (settings w)) (pluginId c))) \<and>
     ((\<forall>e\<in>set (manifests h (files w)).
          truthy (officialRepoById net (fst e)) \<or> truthyValue (getProperty (installedRepoMap (settings w)) (fst e))) \<longrightarrow>
        settings (snd (checkInstalledPluginUpdates net h w)) = settings w \<and>
        filter isDetectionEvent (events (snd (checkInstalledPluginUpdates net h w))) = filter isDetectionEvent (events w))"
proof -
  have w': "snd (checkInstalledPluginUpdates net h w) = w'" using res by simp
  have out: "out = sortWith (candidateCompare (localeCompare h)) cands" using res ok by simp
  show ?thesis
    unfolding w'
    by (intro exI [of _ cands] conjI) (fact out, fact ids, fact invs, fact keep, fact fr,
        fact off, fact tr, fact det, fact quiet)
qed

lemma check_ok:
  assumes ok: "fst (checkInstalledPluginUpdates net h w) = Inr out"
  shows "\<exists>cands.
     out = sortWith (candidateCompare (localeCompare h)) cands \<and>
     map pluginId cands = map fst (manifests h (files w)) \<and>
     (\<forall>c\<in>set cands. candidateInvariant c) \<and>
     (\<forall>k. truthyValue (getProperty (installedRepoMap (settings w)) k) \<longrightarrow>
          getProperty (installedRepoMap (settings (snd (checkInstalledPluginUpdates net h w)))) k = getProperty (installedRepoMap (settings w)) k) \<and>
     files (snd (checkInstalledPluginUpdates net h w)) = files w \<and>
     (\<forall>c\<in>set cands. truthy (officialRepoById net (pluginId c)) \<longrightarrow>
          source c = Official \<and> repo c = map_option StringValue (officialRepoById net (pluginId c))) \<and>
     (\<forall>c\<in>set cands. \<not> truthy (officialRepoById net (pluginId c)) \<and>
          truthyValue (getProperty (installedRepoMap (settings w)) (pluginId c)) \<longrightarrow>
          source c = Tracked \<and> repo c = getProperty (installedRepoMap (settings w)) (pluginId c)) \<and>
     (\<forall>c\<in>set cands. source c = Detected \<longrightarrow>
          truthyValue (repo c) \<and> getProperty (installedRepoMap (settings (snd (checkInstalledPluginUpdates net h w)))) (pluginId c) = repo c \<and>
          saved (snd (checkInstalledPluginUpdates net h w)) = Some (settings (snd (checkInstalledPluginUpdates net h w))) \<and>
          \<not> truthy (officialRepoById net (pluginId c)) \<and>
          \<not> truthyValue (getProperty (installedRepoMap (settings w)) (pluginId c))) \<and>
     ((\<forall>e\<in>set (manifests h (files w)).
          truthy (officialRepoById net (fst e)) \<or> truthyValue (getProperty (installedRepoMap (settings w)) (fst e))) \<longrightarrow>
        settings (snd (checkInstalledPluginUpdates net h w)) = settings w \<and>
        filter isDetectionEvent (events (snd (checkInstalledPluginUpdates net h w))) = filter isDetectionEvent (events w))"
proof (cases "manifests h (files w) = []")
  case True
  then have res: "checkInstalledPluginUpdates net h w =
      (Inr (sortWith (candidateCompare (localeCompare h)) []), w)"
    by (simp add: checkInstalledPluginUpdates_def sortWith_def)
  show ?thesis
    by (rule check_ok_at [OF res ok]) (simp_all add: True)
next
  case False
  let ?M = "\<lambda>w. getProperty (installedRepoMap (settings w))"
  let ?rb = "officialRepoById net"
  define w0 where "w0 = w\<lparr> events := events w @ [Req OfficialListRequest] \<rparr>"
  obtain json where json: "officialList net = Inr json"
    using ok False
    by (cases "officialList net") (simp_all add: checkInstalledPluginUpdates_def io_defs)
  have rb: "?rb = repoByIdOf (case json of None \<Rightarrow> [] | Some ps \<Rightarrow> ps)"
    using json by (cases json) (simp_all add: officialRepoById_def)
  have s0: "settings w0 = settings w" "files w0 = files w"
    "filter isDetectionEvent (events w0) = filter isDetectionEvent (events w)"
    by (simp_all add: w0_def)
  obtain cands ch w1 where
    run: "foldIO (manifests h (files w)) ([], False) (checkPlugin net h ?rb) w0 =
        (Inr (fst ([] :: PluginUpdateCandidate list, False) @ cands, ch), w1)"
    and ids: "map pluginId cands = map fst (manifests h (files w))"
    and invs: "\<forall>c\<in>set cands. candidateInvariant c"
    and keep0: "\<forall>k. truthyValue (?M w0 k) \<longrightarrow> ?M w1 k = ?M w0 k"
    and fr0: "saved w1 = saved w0" "files w1 = files w0"
    and off: "\<forall>c\<in>set cands. truthy (?rb (pluginId c)) \<longrightarrow>
        source c = Official \<and> repo c = map_option StringValue (?rb (pluginId c))"
    and tr0: "\<forall>c\<in>set cands. \<not> truthy (?rb (pluginId c)) \<and> truthyValue (?M w0 (pluginId c)) \<longrightarrow>
        source c = Tracked \<and> repo c = ?M w0 (pluginId c)"
    and det0: "\<forall>c\<in>set cands. source c = Detected \<longrightarrow>
        truthyValue (repo c) \<and> ?M w1 (pluginId c) = repo c \<and>
        \<not> truthy (?rb (pluginId c)) \<and> \<not> truthyValue (?M w0 (pluginId c))"
    and ch: "ch \<longleftrightarrow> snd ([] :: PluginUpdateCandidate list, False) \<or>
        (\<exists>c\<in>set cands. source c = Detected)"
    and quiet0: "(\<forall>e\<in>set (manifests h (files w)).
          truthy (?rb (fst e)) \<or> truthyValue (?M w0 (fst e))) \<longrightarrow>
        settings w1 = settings w0 \<and>
        filter isDetectionEvent (events w1) = filter isDetectionEvent (events w0)"
    using fold_checkPlugin [of "manifests h (files w)" "([], False)" net h ?rb w0] by blast
  have keep: "\<forall>k. truthyValue (?M w k) \<longrightarrow> ?M w1 k = ?M w k"
    using keep0 unfolding s0 .
  have fr: "files w1 = files w" using fr0 s0 by simp
  have tr: "\<forall>c\<in>set cands. \<not> truthy (?rb (pluginId c)) \<and> truthyValue (?M w (pluginId c)) \<longrightarrow>
        source c = Tracked \<and> repo c = ?M w (pluginId c)"
    using tr0 unfolding s0 .
  have det: "\<forall>c\<in>set cands. source c = Detected \<longrightarrow>
        truthyValue (repo c) \<and> ?M w1 (pluginId c) = repo c \<and>
        \<not> truthy (?rb (pluginId c)) \<and> \<not> truthyValue (?M w (pluginId c))"
    using det0 unfolding s0 .
  have quiet: "(\<forall>e\<in>set (manifests h (files w)).
          truthy (?rb (fst e)) \<or> truthyValue (?M w (fst e))) \<longrightarrow>
        settings w1 = settings w \<and>
        filter isDetectionEvent (events w1) = filter isDetectionEvent (events w)"
    using quiet0 unfolding s0 .
  have first: "request OfficialListRequest (officialList net) w = (Inr json, w0)"
    by (simp add: request_def bind_def emit_def ret_def json w0_def)
  have eq: "checkInstalledPluginUpdates net h w =
      bind (if ch then saveSettings h else ret ())
        (\<lambda>_. ret (sortWith (candidateCompare (localeCompare h)) cands)) w1"
  proof -
    have "checkInstalledPluginUpdates net h w =
        bind (foldIO (manifests h (files w)) ([], False) (checkPlugin net h ?rb))
          (\<lambda>result.
             bind (if snd result then saveSettings h else ret ())
               (\<lambda>_. ret (sortWith (candidateCompare (localeCompare h)) (fst result)))) w0"
      using False by (simp add: checkInstalledPluginUpdates_def bind_def [of "request _ _"] first rb Let_def)
    also have "\<dots> = bind (if ch then saveSettings h else ret ())
        (\<lambda>_. ret (sortWith (candidateCompare (localeCompare h)) cands)) w1"
      by (simp add: bind_def [of "foldIO _ _ _"] run)
    finally show ?thesis .
  qed
  show ?thesis
  proof (cases ch)
    case False
    then have res: "checkInstalledPluginUpdates net h w =
        (Inr (sortWith (candidateCompare (localeCompare h)) cands), w1)"
      by (simp add: eq bind_def ret_def)
    have nodet: "\<forall>c\<in>set cands. source c \<noteq> Detected" using ch False by simp
    then have det1: "\<forall>c\<in>set cands. source c = Detected \<longrightarrow>
          truthyValue (repo c) \<and> ?M w1 (pluginId c) = repo c \<and>
          saved w1 = Some (settings w1) \<and>
          \<not> truthy (?rb (pluginId c)) \<and> \<not> truthyValue (?M w (pluginId c))"
      by blast
    show ?thesis
      by (rule check_ok_at [OF res ok ids invs keep fr off tr det1 quiet])
  next
    case True
    then have sv: "saveData h (settings w1) = None"
      using ok by (auto simp: eq bind_def ret_def saveSettings_eq split: option.splits)
    define w2 where "w2 = w1\<lparr> events := events w1 @ [SaveSettings], saved := Some (settings w1) \<rparr>"
    have res: "checkInstalledPluginUpdates net h w =
        (Inr (sortWith (candidateCompare (localeCompare h)) cands), w2)"
      using True sv by (simp add: eq bind_def ret_def saveSettings_eq w2_def)
    have s2: "settings w2 = settings w1" "files w2 = files w1" "saved w2 = Some (settings w2)"
      "filter isDetectionEvent (events w2) = filter isDetectionEvent (events w1)"
      by (simp_all add: w2_def)
    have keep2: "\<forall>k. truthyValue (?M w k) \<longrightarrow> ?M w2 k = ?M w k"
      using keep unfolding s2(1) .
    have fr2: "files w2 = files w" using fr s2 by simp
    have det2: "\<forall>c\<in>set cands. source c = Detected \<longrightarrow>
          truthyValue (repo c) \<and> ?M w2 (pluginId c) = repo c \<and>
          saved w2 = Some (settings w2) \<and>
          \<not> truthy (?rb (pluginId c)) \<and> \<not> truthyValue (?M w (pluginId c))"
      using det s2(3) unfolding s2(1) by blast
    have quiet2: "(\<forall>e\<in>set (manifests h (files w)).
          truthy (?rb (fst e)) \<or> truthyValue (?M w (fst e))) \<longrightarrow>
        settings w2 = settings w \<and>
        filter isDetectionEvent (events w2) = filter isDetectionEvent (events w)"
      using quiet unfolding s2(1) s2(4) .
    show ?thesis
      by (rule check_ok_at [OF res ok ids invs keep2 fr2 off tr det2 quiet2])
  qed
qed

section \<open>Properties of the collations\<close>

lemma lexicographicCompare_refl: "lexicographicCompare a a = 0"
  by (induction a) auto

lemma lexicographicCompare_flip:
  "(lexicographicCompare a b < 0) = (lexicographicCompare b a > 0)"
  by (induction a b rule: lexicographicCompare.induct) auto

lemma lexicographicCompare_trans:
  "lexicographicCompare a b \<le> 0 \<Longrightarrow> lexicographicCompare b c \<le> 0 \<Longrightarrow>
     lexicographicCompare a c \<le> 0"
proof (induction a b arbitrary: c rule: lexicographicCompare.induct)
  case 1
  then show ?case by simp
next
  case (2 y ys)
  then show ?case by (cases c) auto
next
  case (3 x xs)
  then show ?case by simp
next
  case (4 x xs y ys)
  show ?case
  proof (cases c)
    case Nil
    then show ?thesis using "4.prems" by simp
  next
    case (Cons z zs)
    show ?thesis
    proof (cases "(of_char x :: nat) < of_char y")
      case True
      then show ?thesis using "4.prems" Cons by (auto split: if_splits)
    next
      case False
      then have eq: "(of_char x :: nat) = of_char y"
        using "4.prems"(1) by (auto split: if_splits)
      then have ab: "lexicographicCompare xs ys \<le> 0" using "4.prems"(1) by simp
      show ?thesis
      proof (cases "(of_char y :: nat) < of_char z")
        case True
        then show ?thesis using eq Cons by simp
      next
        case False
        then have eq2: "(of_char y :: nat) = of_char z"
          using "4.prems"(2) Cons by (auto split: if_splits)
        then have bc: "lexicographicCompare ys zs \<le> 0" using "4.prems"(2) Cons by simp
        have "lexicographicCompare xs zs \<le> 0"
          using "4.IH" [of zs] eq ab bc by simp
        then show ?thesis using eq eq2 Cons by simp
      qed
    qed
  qed
qed

lemma lexicographicCompare_consistent: "consistentComparator lexicographicCompare"
  unfolding consistentComparator_def
  using lexicographicCompare_refl lexicographicCompare_flip lexicographicCompare_trans by blast

lemma reverse_consistent:
  assumes "consistentComparator p"
  shows "consistentComparator (\<lambda>a b. p b a)"
  using assms unfolding consistentComparator_def by blast

text \<open>A comparison by a key first, and by a second comparison where the keys are equal.\<close>

lemma product_consistent:
  assumes p: "consistentComparator p" and q: "consistentComparator q"
  shows "consistentComparator (\<lambda>a b. if p (k a) (k b) \<noteq> 0 then p (k a) (k b) else q a b)"
proof -
  have pr: "\<And>a. p a a = 0" and pf: "\<And>a b. (p a b < 0) = (p b a > 0)"
    and pt: "\<And>a b c. p a b \<le> 0 \<Longrightarrow> p b c \<le> 0 \<Longrightarrow> p a c \<le> 0"
    using p unfolding consistentComparator_def by blast+
  have qr: "\<And>a. q a a = 0" and qf: "\<And>a b. (q a b < 0) = (q b a > 0)"
    and qt: "\<And>a b c. q a b \<le> 0 \<Longrightarrow> q b c \<le> 0 \<Longrightarrow> q a c \<le> 0"
    using q unfolding consistentComparator_def by blast+
  have pz: "(p a b = 0) = (p b a = 0)" for a b
    using pf [of a b] pf [of b a] by linarith
  let ?c = "\<lambda>a b. if p (k a) (k b) \<noteq> 0 then p (k a) (k b) else q a b"
  have 1: "\<forall>a. ?c a a = 0" by (simp add: pr qr)
  have 2: "\<forall>a b. (?c a b < 0) = (?c b a > 0)"
  proof (intro allI)
    fix a b
    show "(?c a b < 0) = (?c b a > 0)"
      using pz [of "k a" "k b"] pf [of "k a" "k b"] qf [of a b] by auto
  qed
  have 3: "\<forall>a b c. ?c a b \<le> 0 \<and> ?c b c \<le> 0 \<longrightarrow> ?c a c \<le> 0"
  proof (intro allI impI)
    fix a b c
    assume h: "?c a b \<le> 0 \<and> ?c b c \<le> 0"
    have ab: "p (k a) (k b) \<le> 0" using h by (auto split: if_splits)
    have bc: "p (k b) (k c) \<le> 0" using h by (auto split: if_splits)
    have ac: "p (k a) (k c) \<le> 0" using pt [OF ab bc] .
    show "?c a c \<le> 0"
    proof (cases "p (k a) (k c) = 0")
      case False
      then show ?thesis using ac by simp
    next
      case True
      then have ca: "p (k c) (k a) \<le> 0" using pz [of "k a" "k c"] by simp
      have ba: "p (k b) (k a) \<le> 0" using pt [OF bc ca] .
      have cb: "p (k c) (k b) \<le> 0" using pt [OF ca ab] .
      have z1: "p (k a) (k b) = 0" using ab ba pf [of "k a" "k b"] by linarith
      have z2: "p (k b) (k c) = 0" using bc cb pf [of "k b" "k c"] by linarith
      have "q a b \<le> 0" "q b c \<le> 0" using h z1 z2 by simp_all
      then have "q a c \<le> 0" by (rule qt)
      then show ?thesis using True by simp
    qed
  qed
  show ?thesis
    unfolding consistentComparator_def using 1 2 3 by blast
qed

lemma alphabeticCompare_consistent: "consistentComparator alphabeticCompare"
proof -
  have "alphabeticCompare =
      (\<lambda>a b. if lexicographicCompare (toLowerCase a) (toLowerCase b) \<noteq> 0
             then lexicographicCompare (toLowerCase a) (toLowerCase b)
             else lexicographicCompare b a)"
    by (intro ext) (simp add: alphabeticCompare_def)
  then show ?thesis
    using product_consistent [OF lexicographicCompare_consistent
        reverse_consistent [OF lexicographicCompare_consistent], of toLowerCase]
    by simp
qed

text \<open>On strings without upper case letters the example collation is the lexicographic order.\<close>

lemma alphabetic_lower:
  "toLowerCase a = a \<Longrightarrow> toLowerCase b = b \<Longrightarrow>
     (alphabeticCompare a b \<le> 0) = (lexicographicCompare a b \<le> 0)"
  using lexicographicCompare_flip [of a b] lexicographicCompare_flip [of b a]
  by (auto simp: alphabeticCompare_def)

section \<open>Properties of the official map\<close>




lemma truthy_iff: "truthy x \<longleftrightarrow> (\<exists>r. x = Some r \<and> r \<noteq> [])"
  by (cases x) (auto simp: truthy_def)

lemma truthyValue_iff:
  "truthyValue x \<longleftrightarrow>
     (\<exists>r. x = Some (StringValue r) \<and> r \<noteq> []) \<or> (\<exists>n. x = Some (FunctionValue n)) \<or>
     x = Some PrototypeObject"
proof (cases x)
  case None
  then show ?thesis by simp
next
  case (Some v)
  then show ?thesis by (cases v) simp_all
qed

section \<open>Example runs of the update check\<close>

lemma compare_090_100: "compareVersions ''0.9.0'' ''1.0.0'' = - 1"
  by (simp add: version_eval)

lemma compare_100_100: "compareVersions ''1.0.0'' ''1.0.0'' = 0"
  by (simp add: version_eval)

lemmas checker_defs =
  checkInstalledPluginUpdates_def checkPlugin_def resolveRepo_def versionCandidate_def
  getLatestManifestVersionFromRepo_def comparedCandidate_def failedCandidate_def
  unresolvedCandidate_def repoByIdOf_def findAsset_def sortWith_def candidateCompare_def
  checkHost_def officialNet_def officialEntry_def detectNet_def acmeManifest_def
  anonymousManifest_def truthy_def unmappedReason_def trackedWorld_def property_defs

lemma alphabetic_examples:
  "alphabeticCompare ''beta'' ''gamma'' = - 1" "alphabeticCompare ''gamma'' ''beta'' = 1"
  "alphabeticCompare ''alpha'' ''beta'' = - 1" "alphabeticCompare ''alpha'' ''gamma'' = - 1"
  "alphabeticCompare ''a'' ''B'' = - 1" "alphabeticCompare ''B'' ''a'' = 1"
  by (simp_all add: alphabeticCompare_def string_eval)

lemma lower_examples:
  "toLowerCase ''alpha'' = ''alpha''" "toLowerCase ''beta'' = ''beta''"
  "toLowerCase ''gamma'' = ''gamma''"
  by (simp_all add: string_eval)

lemma run_official:
  "fst (checkInstalledPluginUpdates (officialNet [''alpha'', ''beta'', ''gamma''])
       (checkHost [(''alpha'', anonymousManifest), (''gamma'', acmeManifest),
                   (''beta'', acmeManifest)]) (startWorld LocAll [])) =
     Inr [officialCandidate ''beta'' ''0.9.0'' UpdateAvailable True,
          officialCandidate ''gamma'' ''0.9.0'' UpdateAvailable True,
          officialCandidate ''alpha'' ''1.0.0'' UpToDate False]"
  by (simp add: checker_defs io_defs example_defs compare_090_100 compare_100_100 Let_def
      alphabetic_examples officialCandidate_def)

lemma run_mixed_case:
  "fst (checkInstalledPluginUpdates (officialNet [''B'', ''a''])
       (checkHost [(''B'', acmeManifest), (''a'', acmeManifest)]) (startWorld LocAll [])) =
     Inr [officialCandidate ''a'' ''0.9.0'' UpdateAvailable True,
          officialCandidate ''B'' ''0.9.0'' UpdateAvailable True]"
  by (simp add: checker_defs io_defs example_defs compare_090_100 Let_def
      alphabetic_examples officialCandidate_def)

lemma detect_p:
  "findRepoByManifestId detectNet ''p'' acmeManifest =
     (\<lparr> det_repo = Some ''acme/obsidian-p'', det_reason = None \<rparr>,
      [HeadManifestRequest ''acme/obsidian-p''])"
proof -
  have t: "tokenOf ''p'' = ''p''" "tokenOf ''P'' = ''p''"
    by (simp_all add: token_eval string_eval)
  have o: "parseGithubOwnerFromAuthorUrl (m_authorUrl acmeManifest) = Some ''acme''"
    by (simp add: acmeManifest_def parseGithubOwnerFromAuthorUrl_def matchOwnerAt_def string_eval)
  have l: "patternCandidates ''acme'' ''p'' (m_name acmeManifest) =
      [''acme/obsidian-p'', ''acme/p'', ''acme/obsidian-plugin-p'']"
    by (simp add: acmeManifest_def patternCandidates_general t)
  have k: "findRepoByKnownPatterns detectNet ''p'' acmeManifest =
      (Some ''acme/obsidian-p'', [HeadManifestRequest ''acme/obsidian-p''])"
    by (simp add: findRepoByKnownPatterns_def o l truthy_def repoMatchesPluginId_def
        detectNet_def Let_def)
  show ?thesis
    by (simp add: findRepoByManifestId_def k truthy_def Let_def)
qed

lemma detectNet_answers:
  "officialList detectNet = Inr (Some [])"
  "latestRelease detectNet = (\<lambda>r. Inr \<lparr> assets = Some
      [\<lparr> asset_name = ''main.js'', browser_download_url = ''main.js'' \<rparr>,
       \<lparr> asset_name = ''manifest.json'', browser_download_url = ''manifest.json'' \<rparr>] \<rparr>)"
  "downloadManifest detectNet =
     (\<lambda>u. Inr (Some \<lparr> rm_id = ''p'', rm_version = Some ''1.0.0'', rm_json = ''{}'' \<rparr>))"
  by (simp_all add: detectNet_def releaseNet_def)

lemma run_detect:
  "checkInstalledPluginUpdates detectNet (checkHost [(''p'', acmeManifest)])
       (startWorld LocAll []) =
     (Inr [acmeCandidate Detected],
      (startWorld LocAll [])
        \<lparr> events := [Req OfficialListRequest, Req (HeadManifestRequest ''acme/obsidian-p''),
             Req (LatestReleaseRequest ''acme/obsidian-p''),
             Req (DownloadRequest ''manifest.json''), SaveSettings],
          settings := DEFAULT_SETTINGS \<lparr> installedRepoMap := [''p'' \<mapsto> ''acme/obsidian-p''] \<rparr>,
          saved := Some (DEFAULT_SETTINGS \<lparr> installedRepoMap := [''p'' \<mapsto> ''acme/obsidian-p''] \<rparr>) \<rparr>)"
proof -
  have d: "findRepoByManifestId detectNet ''p''
      \<lparr> m_version = Some ''0.9.0'', m_name = Some ''P'', m_authorUrl = Some ''github.com/acme'' \<rparr> =
     (\<lparr> det_repo = Some ''acme/obsidian-p'', det_reason = None \<rparr>,
      [HeadManifestRequest ''acme/obsidian-p''])"
    using detect_p by (simp add: acmeManifest_def)
  show ?thesis
    by (simp add: checkInstalledPluginUpdates_def checkPlugin_def resolveRepo_def
        versionCandidate_def getLatestManifestVersionFromRepo_def comparedCandidate_def
        repoByIdOf_def findAsset_def sortWith_def checkHost_def acmeManifest_def truthy_def
        unmappedReason_def d detectNet_answers io_defs exampleHost_def startWorld_def
        DEFAULT_SETTINGS_def compare_090_100 Let_def property_defs acmeCandidate_def)
qed


text \<open>
  An installed plugin whose id is \<^verbatim>\<open>constructor\<close>, with no entry in the official list and none
  in \<^verbatim>\<open>installedRepoMap\<close>: the read finds the function \<^verbatim>\<open>Object\<close>, the plugin is reported as
  tracked, and no request of the detection is issued.
\<close>

lemma run_constructor:
  "checkInstalledPluginUpdates detectNet (checkHost [(''constructor'', acmeManifest)])
       (startWorld LocAll []) =
     (Inr [\<lparr> pluginId = ''constructor'', currentVersion = ''0.9.0'',
            latestVersion = Some ''1.0.0'', repo = Some (FunctionValue ''constructor''),
            source = Tracked, versionStatus = UpdateAvailable, needsUpdate = True,
            errorText = None \<rparr>],
      (startWorld LocAll [])
        \<lparr> events := [Req OfficialListRequest,
             Req (LatestReleaseRequest ''function Object() { [native code] }''),
             Req (DownloadRequest ''manifest.json'')] \<rparr>)"
  by (simp add: checkInstalledPluginUpdates_def checkPlugin_def resolveRepo_def
      versionCandidate_def getLatestManifestVersionFromRepo_def comparedCandidate_def
      repoByIdOf_def findAsset_def sortWith_def checkHost_def acmeManifest_def truthy_def
      unmappedReason_def detectNet_answers io_defs exampleHost_def startWorld_def
      DEFAULT_SETTINGS_def compare_090_100 Let_def property_defs)

text \<open>
  A save that fails after a detection: the run throws, the entry written before the save
  stays in the object of the defaults, and the settings loaded next have it.
\<close>

lemma run_detect_save_fails:
  "fst (checkInstalledPluginUpdates detectNet (failingSaveHost [(''p'', acmeManifest)])
       (startWorld LocAll [])) = Inl (HostError ''EIO'')"
  "saved (snd (checkInstalledPluginUpdates detectNet (failingSaveHost [(''p'', acmeManifest)])
       (startWorld LocAll []))) = None"
  "installedRepoMap (settings (loadSettings (snd (checkInstalledPluginUpdates detectNet
       (failingSaveHost [(''p'', acmeManifest)]) (startWorld LocAll []))))) ''p'' =
     Some ''acme/obsidian-p''"
proof -
  have d: "findRepoByManifestId detectNet ''p''
      \<lparr> m_version = Some ''0.9.0'', m_name = Some ''P'', m_authorUrl = Some ''github.com/acme'' \<rparr> =
     (\<lparr> det_repo = Some ''acme/obsidian-p'', det_reason = None \<rparr>,
      [HeadManifestRequest ''acme/obsidian-p''])"
    using detect_p by (simp add: acmeManifest_def)
  have r: "checkInstalledPluginUpdates detectNet (failingSaveHost [(''p'', acmeManifest)])
       (startWorld LocAll []) =
     (Inl (HostError ''EIO''),
      (startWorld LocAll [])
        \<lparr> events := [Req OfficialListRequest, Req (HeadManifestRequest ''acme/obsidian-p''),
             Req (LatestReleaseRequest ''acme/obsidian-p''),
             Req (DownloadRequest ''manifest.json''), SaveSettings],
          settings := DEFAULT_SETTINGS \<lparr> installedRepoMap := [''p'' \<mapsto> ''acme/obsidian-p''] \<rparr> \<rparr>)"
    by (simp add: checkInstalledPluginUpdates_def checkPlugin_def resolveRepo_def
        versionCandidate_def getLatestManifestVersionFromRepo_def comparedCandidate_def
        repoByIdOf_def findAsset_def sortWith_def checkHost_def failingSaveHost_def
        acmeManifest_def truthy_def unmappedReason_def d detectNet_answers io_defs
        exampleHost_def startWorld_def DEFAULT_SETTINGS_def compare_090_100 Let_def property_defs)
  show "fst (checkInstalledPluginUpdates detectNet (failingSaveHost [(''p'', acmeManifest)])
       (startWorld LocAll [])) = Inl (HostError ''EIO'')"
    by (simp add: r)
  show "saved (snd (checkInstalledPluginUpdates detectNet (failingSaveHost [(''p'', acmeManifest)])
       (startWorld LocAll []))) = None"
    unfolding r by (simp add: startWorld_def)
  show "installedRepoMap (settings (loadSettings (snd (checkInstalledPluginUpdates detectNet
       (failingSaveHost [(''p'', acmeManifest)]) (startWorld LocAll []))))) ''p'' =
     Some ''acme/obsidian-p''"
    unfolding r by (simp add: loadSettings_def defaultsRepoMap_def startWorld_def)
qed

section \<open>The invariant of the update candidates\<close>

text \<open>
  Claim C5. Every candidate of a run of \<^verbatim>\<open>checkInstalledPluginUpdates\<close> that returns satisfies
  the chained invariant: \<^verbatim>\<open>needsUpdate\<close> implies that \<^verbatim>\<open>versionStatus\<close> is
  \<^verbatim>\<open>update-available\<close>, and that status implies that \<^verbatim>\<open>repo\<close> is present. What is present is
  a string that is not empty, or, for a tracked plugin whose id names a member of
  \<^verbatim>\<open>Object.prototype\<close>, that member, which the read of \<^verbatim>\<open>installedRepoMap\<close> found.
\<close>

theorem candidates_chained_invariant:
  "fst (checkInstalledPluginUpdates net h w) = Inr out \<longrightarrow>
     (\<forall>c\<in>set out.
        (needsUpdate c \<longrightarrow> versionStatus c = UpdateAvailable) \<and>
        (versionStatus c = UpdateAvailable \<longrightarrow>
           (\<exists>r. repo c = Some (StringValue r) \<and> r \<noteq> []) \<or>
           (source c = Tracked \<and> pluginId c \<in> set objectPrototypeFunctions \<and>
            repo c = Some (FunctionValue (pluginId c))) \<or>
           (source c = Tracked \<and> pluginId c = ''__proto__'' \<and> repo c = Some PrototypeObject)))"
proof
  assume ok: "fst (checkInstalledPluginUpdates net h w) = Inr out"
  obtain cands where out: "out = sortWith (candidateCompare (localeCompare h)) cands"
    and inv: "\<forall>c\<in>set cands. candidateInvariant c"
    using check_ok [OF ok] by blast
  have s: "set out = set cands" by (simp add: out set_sortWith)
  show "\<forall>c\<in>set out.
        (needsUpdate c \<longrightarrow> versionStatus c = UpdateAvailable) \<and>
        (versionStatus c = UpdateAvailable \<longrightarrow>
           (\<exists>r. repo c = Some (StringValue r) \<and> r \<noteq> []) \<or>
           (source c = Tracked \<and> pluginId c \<in> set objectPrototypeFunctions \<and>
            repo c = Some (FunctionValue (pluginId c))) \<or>
           (source c = Tracked \<and> pluginId c = ''__proto__'' \<and> repo c = Some PrototypeObject))"
  proof
    fix c assume "c \<in> set out"
    then have i: "candidateInvariant c" using inv s by simp
    have 1: "needsUpdate c \<longrightarrow> versionStatus c = UpdateAvailable"
      using i by (simp add: candidateInvariant_def)
    have 2: "versionStatus c = UpdateAvailable \<longrightarrow>
           (\<exists>r. repo c = Some (StringValue r) \<and> r \<noteq> []) \<or>
           (source c = Tracked \<and> pluginId c \<in> set objectPrototypeFunctions \<and>
            repo c = Some (FunctionValue (pluginId c))) \<or>
           (source c = Tracked \<and> pluginId c = ''__proto__'' \<and> repo c = Some PrototypeObject)"
    proof
      assume "versionStatus c = UpdateAvailable"
      then have "truthyValue (repo c)" using i by (simp add: candidateInvariant_def)
      then consider (str) r where "repo c = Some (StringValue r)" "r \<noteq> []"
        | (fn) n where "repo c = Some (FunctionValue n)"
        | (obj) "repo c = Some PrototypeObject"
        unfolding truthyValue_iff by blast
      then show "(\<exists>r. repo c = Some (StringValue r) \<and> r \<noteq> []) \<or>
           (source c = Tracked \<and> pluginId c \<in> set objectPrototypeFunctions \<and>
            repo c = Some (FunctionValue (pluginId c))) \<or>
           (source c = Tracked \<and> pluginId c = ''__proto__'' \<and> repo c = Some PrototypeObject)"
      proof cases
        case str
        then show ?thesis by blast
      next
        case fn
        then have "source c = Tracked \<and> n = pluginId c \<and> n \<in> set objectPrototypeFunctions"
          using i unfolding candidateInvariant_def by blast
        then show ?thesis using fn by blast
      next
        case obj
        then have "source c = Tracked \<and> pluginId c = ''__proto__''"
          using i unfolding candidateInvariant_def by blast
        then show ?thesis using obj by simp
      qed
    qed
    show "(needsUpdate c \<longrightarrow> versionStatus c = UpdateAvailable) \<and>
        (versionStatus c = UpdateAvailable \<longrightarrow>
           (\<exists>r. repo c = Some (StringValue r) \<and> r \<noteq> []) \<or>
           (source c = Tracked \<and> pluginId c \<in> set objectPrototypeFunctions \<and>
            repo c = Some (FunctionValue (pluginId c))) \<or>
           (source c = Tracked \<and> pluginId c = ''__proto__'' \<and> repo c = Some PrototypeObject))"
      using 1 2 by (intro conjI)
  qed
qed

theorem candidates_chained_invariant_witness:
  "fst (checkInstalledPluginUpdates detectNet (checkHost [(''p'', acmeManifest)])
          (startWorld LocAll [])) = Inr [acmeCandidate Detected]
   \<and> needsUpdate (acmeCandidate Detected)
   \<and> versionStatus (acmeCandidate Detected) = UpdateAvailable
   \<and> repo (acmeCandidate Detected) = Some (StringValue ''acme/obsidian-p'')
   \<and> fst (checkInstalledPluginUpdates detectNet (checkHost [(''constructor'', acmeManifest)])
          (startWorld LocAll [])) = Inr [constructorCandidate]
   \<and> needsUpdate constructorCandidate
   \<and> versionStatus constructorCandidate = UpdateAvailable
   \<and> source constructorCandidate = Tracked
   \<and> repo constructorCandidate = Some (FunctionValue ''constructor'')"
proof -
  let ?run = "checkInstalledPluginUpdates detectNet (checkHost [(''p'', acmeManifest)])
          (startWorld LocAll [])"
  let ?run' = "checkInstalledPluginUpdates detectNet (checkHost [(''constructor'', acmeManifest)])
          (startWorld LocAll [])"
  note T = candidates_chained_invariant [where net = detectNet
      and h = "checkHost [(''p'', acmeManifest)]" and w = "startWorld LocAll []"
      and out = "[acmeCandidate Detected]"]
  note T' = candidates_chained_invariant [where net = detectNet
      and h = "checkHost [(''constructor'', acmeManifest)]" and w = "startWorld LocAll []"
      and out = "[constructorCandidate]"]
  have r: "fst ?run = Inr [acmeCandidate Detected]"
    by (simp add: run_detect)
  have r': "fst ?run' = Inr [constructorCandidate]"
    by (simp add: run_constructor constructorCandidate_def)
  have n: "needsUpdate (acmeCandidate Detected)" "source (acmeCandidate Detected) \<noteq> Tracked"
    by (simp_all add: acmeCandidate_def)
  have n': "needsUpdate constructorCandidate" "pluginId constructorCandidate = ''constructor''"
    "\<not> (\<exists>r. repo constructorCandidate = Some (StringValue r) \<and> r \<noteq> [])"
    by (simp_all add: constructorCandidate_def)
  have a: "versionStatus (acmeCandidate Detected) = UpdateAvailable"
    using T r n(1) by simp
  have "\<exists>r. repo (acmeCandidate Detected) = Some (StringValue r) \<and> r \<noteq> []"
    using T r a n(2) by simp
  then have b: "repo (acmeCandidate Detected) = Some (StringValue ''acme/obsidian-p'')"
    by (simp add: acmeCandidate_def)
  have a': "versionStatus constructorCandidate = UpdateAvailable"
    using T' r' n'(1) by simp
  have "source constructorCandidate = Tracked \<and>
      repo constructorCandidate = Some (FunctionValue ''constructor'')"
    using T' r' a' n'(2,3) by auto
  then have b': "source constructorCandidate = Tracked"
    "repo constructorCandidate = Some (FunctionValue ''constructor'')"
    by simp_all
  show ?thesis
    by (intro conjI) (fact r, fact n(1), fact a, fact b, fact r', fact n'(1), fact a', fact b'(1),
        fact b'(2))
qed

section \<open>The order of the update candidates\<close>

lemma sorted_wrt_unique:
  assumes "sorted_wrt R xs" "sorted_wrt R ys" "mset xs = mset ys"
    and "\<forall>a\<in>set xs. \<forall>b\<in>set xs. R a b \<and> R b a \<longrightarrow> a = b"
  shows "xs = ys"
  using assms
proof (induction xs arbitrary: ys)
  case Nil
  then show ?case by simp
next
  case (Cons x xs)
  obtain y ys' where ys: "ys = y # ys'"
    using Cons.prems(3) by (cases ys) auto
  have sets: "set (x # xs) = set ys"
    using Cons.prems(3) by (metis mset_eq_setD)
  have xy: "x = y"
  proof (rule ccontr)
    assume ne: "x \<noteq> y"
    have "x \<in> set ys'" using sets ne ys by auto
    then have 1: "R y x" using Cons.prems(2) ys by auto
    have "y \<in> set xs" using sets ne ys by auto
    then have 2: "R x y" using Cons.prems(1) by auto
    have "y \<in> set (x # xs)" using sets ys by auto
    then show False using Cons.prems(4) 1 2 ne by auto
  qed
  have "xs = ys'"
  proof (rule Cons.IH)
    show "sorted_wrt R xs" using Cons.prems(1) by simp
    show "sorted_wrt R ys'" using Cons.prems(2) ys by simp
    show "mset xs = mset ys'" using Cons.prems(3) ys xy by simp
    show "\<forall>a\<in>set xs. \<forall>b\<in>set xs. R a b \<and> R b a \<longrightarrow> a = b"
      using Cons.prems(4) by simp
  qed
  then show ?case using xy ys by simp
qed

lemma three_sorted:
  assumes c: "consistentComparator lc"
    and n: "\<not> needsUpdate A" "needsUpdate B" "needsUpdate C"
    and lt: "lc (pluginId C) (pluginId B) < 0"
    and s: "sorted_wrt (\<lambda>a b. candidateCompare lc a b \<le> 0) out"
    and m: "mset out = {#A, B, C#}"
  shows "out = [C, B, A]"
proof -
  have bc: "lc (pluginId B) (pluginId C) > 0"
    using c lt unfolding consistentComparator_def by blast
  have refl: "\<And>a. lc a a = 0"
    using c unfolding consistentComparator_def by blast
  have 1: "sorted_wrt (\<lambda>a b. candidateCompare lc a b \<le> 0) [C, B, A]"
    using n lt by (simp add: candidateCompare_def)
  have 2: "mset [C, B, A] = mset out"
    using m by simp
  have 3: "\<forall>a\<in>set [C, B, A]. \<forall>b\<in>set [C, B, A].
      candidateCompare lc a b \<le> 0 \<and> candidateCompare lc b a \<le> 0 \<longrightarrow> a = b"
    using n lt bc by (auto simp: candidateCompare_def)
  show ?thesis
    using sorted_wrt_unique [OF 1 s 2 3] by simp
qed

text \<open>
  Claim C2, as stated, fails: within a partition the candidates are in the order of
  \<^verbatim>\<open>localeCompare\<close>, the collation of the runtime, which is not the lexicographic order of the
  ids. With the installed plugins \<^verbatim>\<open>B\<close> and \<^verbatim>\<open>a\<close>, which both need an update, the run returns
  \<^verbatim>\<open>a\<close> before \<^verbatim>\<open>B\<close>, because \<^verbatim>\<open>'a'.localeCompare('B')\<close> is negative, while \<^verbatim>\<open>B\<close> is before
  \<^verbatim>\<open>a\<close> in the lexicographic order.
\<close>

theorem update_candidates_order_counterexample:
  "fst (checkInstalledPluginUpdates (officialNet [''B'', ''a''])
          (checkHost [(''B'', acmeManifest), (''a'', acmeManifest)]) (startWorld LocAll [])) =
     Inr [officialCandidate ''a'' ''0.9.0'' UpdateAvailable True,
          officialCandidate ''B'' ''0.9.0'' UpdateAvailable True]
   \<and> needsUpdate (officialCandidate ''a'' ''0.9.0'' UpdateAvailable True)
   \<and> needsUpdate (officialCandidate ''B'' ''0.9.0'' UpdateAvailable True)
   \<and> localeCompare (checkHost [(''B'', acmeManifest), (''a'', acmeManifest)]) ''a'' ''B'' < 0
   \<and> lexicographicCompare ''B'' ''a'' < 0
   \<and> \<not> lexicographicCompare ''a'' ''B'' \<le> 0"
proof -
  have n: "needsUpdate (officialCandidate ''a'' ''0.9.0'' UpdateAvailable True)"
    "needsUpdate (officialCandidate ''B'' ''0.9.0'' UpdateAvailable True)"
    by (simp_all add: officialCandidate_def)
  have l: "localeCompare (checkHost [(''B'', acmeManifest), (''a'', acmeManifest)]) ''a'' ''B'' < 0"
    by (simp add: checkHost_def alphabetic_examples)
  have x: "lexicographicCompare ''B'' ''a'' < 0" "\<not> lexicographicCompare ''a'' ''B'' \<le> 0"
    by simp_all
  show ?thesis
    by (intro conjI) (fact run_mixed_case, fact n(1), fact n(2), fact l, fact x(1), fact x(2))
qed

text \<open>
  Claim C2, amended. With a consistent \<^verbatim>\<open>localeCompare\<close>, the sequence that
  \<^verbatim>\<open>checkInstalledPluginUpdates\<close> returns has every candidate that needs an update before every
  candidate that does not, within each of the two partitions the ids ascend in the order of
  \<^verbatim>\<open>localeCompare\<close>, and it has one candidate for each installed plugin. When its candidates
  are \<open>A\<close> that needs no update and \<open>B\<close> and \<open>C\<close> that need one, with the id of \<open>C\<close> before that
  of \<open>B\<close> for \<^verbatim>\<open>localeCompare\<close>, the sequence is \<open>[C, B, A]\<close>. Within the partitions the ids are
  in lexicographic order when \<^verbatim>\<open>localeCompare\<close> agrees with that order on the ids of the
  candidates.
\<close>

theorem update_candidates_order_amended:
  "consistentComparator (localeCompare h) \<and>
   fst (checkInstalledPluginUpdates net h w) = Inr out \<longrightarrow>
     (\<forall>i j. i < j \<and> j < length out \<and> needsUpdate (out ! j) \<longrightarrow> needsUpdate (out ! i)) \<and>
     (\<forall>i j. i < j \<and> j < length out \<and> needsUpdate (out ! i) = needsUpdate (out ! j) \<longrightarrow>
        localeCompare h (pluginId (out ! i)) (pluginId (out ! j)) \<le> 0) \<and>
     mset (map pluginId out) = mset (map fst (manifests h (files w))) \<and>
     (mset out = {#A, B, C#} \<and> \<not> needsUpdate A \<and> needsUpdate B \<and> needsUpdate C \<and>
      localeCompare h (pluginId C) (pluginId B) < 0 \<longrightarrow> out = [C, B, A]) \<and>
     ((\<forall>a\<in>set out. \<forall>b\<in>set out.
         (localeCompare h (pluginId a) (pluginId b) \<le> 0) =
         (lexicographicCompare (pluginId a) (pluginId b) \<le> 0)) \<longrightarrow>
      (\<forall>i j. i < j \<and> j < length out \<and> needsUpdate (out ! i) = needsUpdate (out ! j) \<longrightarrow>
         lexicographicCompare (pluginId (out ! i)) (pluginId (out ! j)) \<le> 0))"
proof
  assume a: "consistentComparator (localeCompare h) \<and>
    fst (checkInstalledPluginUpdates net h w) = Inr out"
  then have c: "consistentComparator (localeCompare h)"
    and ok: "fst (checkInstalledPluginUpdates net h w) = Inr out" by simp_all
  obtain cands where out: "out = sortWith (candidateCompare (localeCompare h)) cands"
    and ids: "map pluginId cands = map fst (manifests h (files w))"
    using check_ok [OF ok] by blast
  have le: "candidateCompare (localeCompare h) (out ! i) (out ! j) \<le> 0"
    if "i < j" "j < length out" for i j
    using sorted_candidates_nth [OF c that(1), of cands] that(2) unfolding out by simp
  have 1: "\<forall>i j. i < j \<and> j < length out \<and> needsUpdate (out ! j) \<longrightarrow> needsUpdate (out ! i)"
    using le candidateCompare_le_needs by blast
  have 2: "\<forall>i j. i < j \<and> j < length out \<and> needsUpdate (out ! i) = needsUpdate (out ! j) \<longrightarrow>
        localeCompare h (pluginId (out ! i)) (pluginId (out ! j)) \<le> 0"
    using le candidateCompare_le_ids by blast
  have "mset (map pluginId out) = mset (map pluginId cands)"
    unfolding out by (simp add: mset_sortWith)
  then have 3: "mset (map pluginId out) = mset (map fst (manifests h (files w)))"
    using ids by simp
  have s: "sorted_wrt (\<lambda>a b. candidateCompare (localeCompare h) a b \<le> 0) out"
    unfolding out by (rule sorted_candidates [OF c])
  have 4: "mset out = {#A, B, C#} \<and> \<not> needsUpdate A \<and> needsUpdate B \<and> needsUpdate C \<and>
      localeCompare h (pluginId C) (pluginId B) < 0 \<longrightarrow> out = [C, B, A]"
    using three_sorted [OF c _ _ _ _ s] by blast
  have 5: "(\<forall>a\<in>set out. \<forall>b\<in>set out.
         (localeCompare h (pluginId a) (pluginId b) \<le> 0) =
         (lexicographicCompare (pluginId a) (pluginId b) \<le> 0)) \<longrightarrow>
      (\<forall>i j. i < j \<and> j < length out \<and> needsUpdate (out ! i) = needsUpdate (out ! j) \<longrightarrow>
         lexicographicCompare (pluginId (out ! i)) (pluginId (out ! j)) \<le> 0)"
  proof (intro impI allI)
    fix i j
    assume agree: "\<forall>a\<in>set out. \<forall>b\<in>set out.
         (localeCompare h (pluginId a) (pluginId b) \<le> 0) =
         (lexicographicCompare (pluginId a) (pluginId b) \<le> 0)"
      and ij: "i < j \<and> j < length out \<and> needsUpdate (out ! i) = needsUpdate (out ! j)"
    have "out ! i \<in> set out" "out ! j \<in> set out" using ij by simp_all
    moreover have "localeCompare h (pluginId (out ! i)) (pluginId (out ! j)) \<le> 0"
      using 2 ij by blast
    ultimately show "lexicographicCompare (pluginId (out ! i)) (pluginId (out ! j)) \<le> 0"
      using agree by blast
  qed
  show "(\<forall>i j. i < j \<and> j < length out \<and> needsUpdate (out ! j) \<longrightarrow> needsUpdate (out ! i)) \<and>
     (\<forall>i j. i < j \<and> j < length out \<and> needsUpdate (out ! i) = needsUpdate (out ! j) \<longrightarrow>
        localeCompare h (pluginId (out ! i)) (pluginId (out ! j)) \<le> 0) \<and>
     mset (map pluginId out) = mset (map fst (manifests h (files w))) \<and>
     (mset out = {#A, B, C#} \<and> \<not> needsUpdate A \<and> needsUpdate B \<and> needsUpdate C \<and>
      localeCompare h (pluginId C) (pluginId B) < 0 \<longrightarrow> out = [C, B, A]) \<and>
     ((\<forall>a\<in>set out. \<forall>b\<in>set out.
         (localeCompare h (pluginId a) (pluginId b) \<le> 0) =
         (lexicographicCompare (pluginId a) (pluginId b) \<le> 0)) \<longrightarrow>
      (\<forall>i j. i < j \<and> j < length out \<and> needsUpdate (out ! i) = needsUpdate (out ! j) \<longrightarrow>
         lexicographicCompare (pluginId (out ! i)) (pluginId (out ! j)) \<le> 0))"
    by (intro conjI) (fact 1, fact 2, fact 3, fact 4, fact 5)
qed

theorem update_candidates_order_amended_witness:
  "consistentComparator (localeCompare (checkHost [(''alpha'', anonymousManifest),
       (''gamma'', acmeManifest), (''beta'', acmeManifest)]))
   \<and> fst (checkInstalledPluginUpdates (officialNet [''alpha'', ''beta'', ''gamma''])
          (checkHost [(''alpha'', anonymousManifest), (''gamma'', acmeManifest),
                      (''beta'', acmeManifest)]) (startWorld LocAll [])) =
       Inr [officialCandidate ''beta'' ''0.9.0'' UpdateAvailable True,
            officialCandidate ''gamma'' ''0.9.0'' UpdateAvailable True,
            officialCandidate ''alpha'' ''1.0.0'' UpToDate False]
   \<and> mset [officialCandidate ''beta'' ''0.9.0'' UpdateAvailable True,
            officialCandidate ''gamma'' ''0.9.0'' UpdateAvailable True,
            officialCandidate ''alpha'' ''1.0.0'' UpToDate False] =
       {#officialCandidate ''alpha'' ''1.0.0'' UpToDate False,
         officialCandidate ''gamma'' ''0.9.0'' UpdateAvailable True,
         officialCandidate ''beta'' ''0.9.0'' UpdateAvailable True#}
   \<and> localeCompare (checkHost [(''alpha'', anonymousManifest), (''gamma'', acmeManifest),
        (''beta'', acmeManifest)]) ''beta'' ''gamma'' < 0
   \<and> localeCompare (checkHost [(''alpha'', anonymousManifest), (''gamma'', acmeManifest),
        (''beta'', acmeManifest)]) ''beta'' ''gamma'' \<le> 0
   \<and> lexicographicCompare ''beta'' ''gamma'' \<le> 0
   \<and> mset (map pluginId [officialCandidate ''beta'' ''0.9.0'' UpdateAvailable True,
            officialCandidate ''gamma'' ''0.9.0'' UpdateAvailable True,
            officialCandidate ''alpha'' ''1.0.0'' UpToDate False]) =
       mset [''alpha'', ''gamma'', ''beta'']"
proof -
  let ?h = "checkHost [(''alpha'', anonymousManifest), (''gamma'', acmeManifest),
       (''beta'', acmeManifest)]"
  let ?A = "officialCandidate ''alpha'' ''1.0.0'' UpToDate False"
  let ?B = "officialCandidate ''gamma'' ''0.9.0'' UpdateAvailable True"
  let ?C = "officialCandidate ''beta'' ''0.9.0'' UpdateAvailable True"
  note T = update_candidates_order_amended [where h = ?h
      and net = "officialNet [''alpha'', ''beta'', ''gamma'']"
      and w = "startWorld LocAll []" and out = "[?C, ?B, ?A]" and A = ?A and B = ?B and C = ?C]
  have c: "consistentComparator (localeCompare ?h)"
    by (simp add: checkHost_def alphabeticCompare_consistent)
  have r: "fst (checkInstalledPluginUpdates (officialNet [''alpha'', ''beta'', ''gamma'']) ?h
      (startWorld LocAll [])) = Inr [?C, ?B, ?A]"
    by (rule run_official)
  have ms: "mset [?C, ?B, ?A] = {#?A, ?B, ?C#}"
    by simp
  have lt: "localeCompare ?h ''beta'' ''gamma'' < 0"
    by (simp add: checkHost_def alphabetic_examples)
  have agree: "\<forall>a\<in>set [?C, ?B, ?A]. \<forall>b\<in>set [?C, ?B, ?A].
         (localeCompare ?h (pluginId a) (pluginId b) \<le> 0) =
         (lexicographicCompare (pluginId a) (pluginId b) \<le> 0)"
    by (simp add: checkHost_def officialCandidate_def alphabetic_lower lower_examples)
  have k: "(\<forall>i j. i < j \<and> j < length [?C, ?B, ?A] \<and>
              needsUpdate ([?C, ?B, ?A] ! i) = needsUpdate ([?C, ?B, ?A] ! j) \<longrightarrow>
              localeCompare ?h (pluginId ([?C, ?B, ?A] ! i)) (pluginId ([?C, ?B, ?A] ! j)) \<le> 0)"
    and m: "mset (map pluginId [?C, ?B, ?A]) =
       mset (map fst (manifests ?h (files (startWorld LocAll []))))"
    using T c r by blast+
  have k': "(\<forall>i j. i < j \<and> j < length [?C, ?B, ?A] \<and>
              needsUpdate ([?C, ?B, ?A] ! i) = needsUpdate ([?C, ?B, ?A] ! j) \<longrightarrow>
              lexicographicCompare (pluginId ([?C, ?B, ?A] ! i)) (pluginId ([?C, ?B, ?A] ! j)) \<le> 0)"
    using T c r agree by blast
  have "(0::nat) < 1 \<and> 1 < length [?C, ?B, ?A] \<and>
      needsUpdate ([?C, ?B, ?A] ! 0) = needsUpdate ([?C, ?B, ?A] ! 1) \<longrightarrow>
      localeCompare ?h (pluginId ([?C, ?B, ?A] ! 0)) (pluginId ([?C, ?B, ?A] ! 1)) \<le> 0"
    using k by blast
  then have le: "localeCompare ?h ''beta'' ''gamma'' \<le> 0"
    by (simp add: officialCandidate_def)
  have "(0::nat) < 1 \<and> 1 < length [?C, ?B, ?A] \<and>
      needsUpdate ([?C, ?B, ?A] ! 0) = needsUpdate ([?C, ?B, ?A] ! 1) \<longrightarrow>
      lexicographicCompare (pluginId ([?C, ?B, ?A] ! 0)) (pluginId ([?C, ?B, ?A] ! 1)) \<le> 0"
    using k' by blast
  then have le': "lexicographicCompare ''beta'' ''gamma'' \<le> 0"
    by (simp add: officialCandidate_def)
  have m': "mset (map pluginId [?C, ?B, ?A]) = mset [''alpha'', ''gamma'', ''beta'']"
    using m by (simp add: checkHost_def)
  show ?thesis
    by (intro conjI) (fact c, fact r, fact ms, fact lt, fact le, fact le', fact m')
qed

section \<open>The order of the repository resolution\<close>








end
